theory Spec2Isabelle
  imports Main
begin

section \<open>Texts\<close>

text \<open>
  A Python \<open>str\<close> is a sequence of code points. The development covers the code points
  U+0000 to U+00FF: a \<^typ>\<open>char\<close> stands for the code point with the same number, and
  \<^term>\<open>length\<close> of a \<^typ>\<open>string\<close> is what \<open>len\<close> counts. The character classes below are
  the ones of CPython 3.11 on that range.
\<close>

definition ord :: "char \<Rightarrow> nat" where
  "ord c = of_char c"

text \<open>\<open>str.isspace\<close>, which is also the class \<open>\s\<close> of \<open>re\<close> on a \<open>str\<close> pattern.\<close>

definition isspace :: "char \<Rightarrow> bool" where
  "isspace c = ((9 \<le> ord c \<and> ord c \<le> 13) \<or> (28 \<le> ord c \<and> ord c \<le> 32)
     \<or> ord c = 133 \<or> ord c = 160)"

text \<open>The class \<open>\d\<close>: the decimal digits.\<close>

definition isdecimal :: "char \<Rightarrow> bool" where
  "isdecimal c = (48 \<le> ord c \<and> ord c \<le> 57)"

text \<open>The class \<open>\w\<close>: alphanumeric code points and the underscore.\<close>

definition isword :: "char \<Rightarrow> bool" where
  "isword c = ((48 \<le> ord c \<and> ord c \<le> 57) \<or> (65 \<le> ord c \<and> ord c \<le> 90) \<or> ord c = 95
     \<or> (97 \<le> ord c \<and> ord c \<le> 122) \<or> ord c = 170 \<or> ord c = 178 \<or> ord c = 179
     \<or> ord c = 181 \<or> ord c = 185 \<or> ord c = 186 \<or> (188 \<le> ord c \<and> ord c \<le> 190)
     \<or> (192 \<le> ord c \<and> ord c \<le> 214) \<or> (216 \<le> ord c \<and> ord c \<le> 246) \<or> 248 \<le> ord c)"

text \<open>\<open>str.isprintable\<close>, which \<open>repr\<close> consults.\<close>

definition isprintable :: "char \<Rightarrow> bool" where
  "isprintable c = (\<not> (ord c \<le> 31 \<or> (127 \<le> ord c \<and> ord c \<le> 160) \<or> ord c = 173))"

text \<open>\<open>str.strip()\<close> removes the leading and the trailing white space.\<close>

definition strip :: "string \<Rightarrow> string" where
  "strip s = rev (dropWhile isspace (rev (dropWhile isspace s)))"

text \<open>\<open>sep.join(parts)\<close>.\<close>

fun join :: "string \<Rightarrow> string list \<Rightarrow> string" where
  "join sep [] = []"
| "join sep [w] = w"
| "join sep (w # v # ws) = w @ sep @ join sep (v # ws)"

text \<open>Decimal notation of a natural number, as \<open>str\<close> and the format \<open>{}\<close> give it.\<close>

definition digit :: "nat \<Rightarrow> char" where
  "digit n = char_of (48 + n)"

fun dec :: "nat \<Rightarrow> string" where
  "dec n = (if n < 10 then [digit n] else dec (n div 10) @ [digit (n mod 10)])"

declare dec.simps [simp del]

text \<open>The format \<open>{:02}\<close> of a natural number: decimal, filled with zeros to two characters.\<close>

definition format_02 :: "nat \<Rightarrow> string" where
  "format_02 n = replicate (2 - length (dec n)) (CHR ''0'') @ dec n"

text \<open>
  \<open>repr\<close> of a \<open>str\<close>: double quotes when the text has a single quote and no double
  quote, single quotes otherwise; the quote and the backslash are escaped, tab, line feed
  and carriage return have their letter, every other code point that is not printable is
  written \<open>\xhh\<close>.
\<close>

definition hexdigit :: "nat \<Rightarrow> char" where
  "hexdigit n = (if n < 10 then char_of (48 + n) else char_of (87 + n))"

definition repr_char :: "char \<Rightarrow> char \<Rightarrow> string" where
  "repr_char q c =
     (if c = q \<or> c = CHR 0x5C then [CHR 0x5C, c]
      else if ord c = 9 then [CHR 0x5C, CHR ''t'']
      else if ord c = 10 then [CHR 0x5C, CHR ''n'']
      else if ord c = 13 then [CHR 0x5C, CHR ''r'']
      else if isprintable c then [c]
      else [CHR 0x5C, CHR ''x'', hexdigit (ord c div 16), hexdigit (ord c mod 16)])"

definition repr :: "string \<Rightarrow> string" where
  "repr s =
     (let q = (if CHR 0x27 \<in> set s \<and> CHR 0x22 \<notin> set s then CHR 0x22 else CHR 0x27)
      in [q] @ concat (map (repr_char q) s) @ [q])"

section \<open>The patterns\<close>

text \<open>
  \<open>VALID_WORD_PATTERN = re.compile("(?P<word>[\w-]+)")\<close>. \<open>fullmatch\<close> succeeds when the
  whole text is one or more characters of the class; the group \<open>word\<close> is then the text.
\<close>

definition VALID_WORD_PATTERN_fullmatch :: "string \<Rightarrow> string option" where
  "VALID_WORD_PATTERN_fullmatch s =
     (if s \<noteq> [] \<and> list_all (\<lambda>c. isword c \<or> c = CHR ''-'') s then Some s else None)"

text \<open>
  \<open>re.compile("\d+\s*(?P<word>\S*)")\<close>. The three repetitions are greedy: \<open>\d+\<close> takes
  the longest run of digits, \<open>\s*\<close> the longest run of white space after it, \<open>\S*\<close> the
  longest run of other characters, and \<open>fullmatch\<close> succeeds when that reaches the end of
  the text. The group \<open>word\<close> is the last run. (Backtracking finds no other match when
  this one fails: see \<open>dicelist_fullmatch_iff\<close>.)
\<close>

definition DICELIST_EFF_fullmatch :: "string \<Rightarrow> string option" where
  "DICELIST_EFF_fullmatch s =
     (let digits = takeWhile isdecimal s;
          rest = dropWhile isspace (dropWhile isdecimal s)
      in if digits \<noteq> [] \<and> list_all (\<lambda>c. \<not> isspace c) rest then Some rest else None)"

section \<open>Errors\<close>

datatype WordlistFormat = PLAIN | DICELIST_EFF

text \<open>The text after the colon in the message of \<open>InvalidWordlist\<close>.\<close>

datatype reason = Not_a_valid_line | Invalid_word string

text \<open>The options that \<open>click\<close> converts and checks before it calls the command.\<close>

datatype param = WORDLIST_FORMAT | WORDLIST | COUNT

text \<open>
  Every exception that the program raises or lets through. \<open>InvalidWordlist\<close> carries
  its reason, \<open>lineno\<close>, \<open>file_path\<close> and \<open>file_format\<close>; \<open>JoinCharException\<close> is the
  \<open>click.ClickException\<close> of the command, with the rejected join text; \<open>BadParameter\<close>
  is the usage error of \<open>click\<close>, with the option whose value it does not accept.
\<close>

datatype error =
    InvalidWordlist reason nat string WordlistFormat
  | ValueError string
  | AssertionError
  | IndexError
  | FileNotFoundError
  | IsADirectoryError
  | PermissionError
  | JoinCharException string
  | BadParameter param

section \<open>Word and WordlistFormat\<close>

record Word =
  word :: string
  index :: nat

text \<open>The constructor of the dataclass, with its \<open>__post_init__\<close>.\<close>

definition Word_init :: "string \<Rightarrow> nat \<Rightarrow> error + Word" where
  "Word_init w i =
     (if VALID_WORD_PATTERN_fullmatch w = None then Inl (ValueError w)
      else Inr \<lparr>word = w, index = i\<rparr>)"

definition describe :: "Word \<Rightarrow> string" where
  "describe x = ''index '' @ dec (index x) @ '': '' @ repr (word x)"

definition value_of :: "WordlistFormat \<Rightarrow> string" where
  "value_of fmt = (case fmt of PLAIN \<Rightarrow> ''plain'' | DICELIST_EFF \<Rightarrow> ''dicelist-eff'')"

text \<open>\<open>pattern.fullmatch(line)\<close> for \<open>pattern = self._line_pattern\<close>, giving the group \<open>word\<close>.\<close>

definition line_pattern_fullmatch :: "WordlistFormat \<Rightarrow> string \<Rightarrow> string option" where
  "line_pattern_fullmatch fmt s =
     (case fmt of
        PLAIN \<Rightarrow> VALID_WORD_PATTERN_fullmatch s
      | DICELIST_EFF \<Rightarrow> DICELIST_EFF_fullmatch s)"

text \<open>\<open>bad_line\<close> raises \<open>InvalidWordlist\<close>, whose constructor asserts \<open>lineno >= 1\<close>.\<close>

definition bad_line :: "WordlistFormat \<Rightarrow> string \<Rightarrow> nat \<Rightarrow> reason \<Rightarrow> error" where
  "bad_line fmt file_path lineno r =
     (if lineno \<ge> 1 then InvalidWordlist r lineno file_path fmt else AssertionError)"

text \<open>
  The loop of \<open>parse\<close> over \<open>enumerate(file, start=1)\<close>: the lines still to read, the
  number of the next one and the result so far. The group \<open>word\<close> takes part in every
  match of both patterns, so \<open>assert word is not None\<close> holds and has no branch here.
\<close>

fun parse_loop ::
  "WordlistFormat \<Rightarrow> string \<Rightarrow> nat \<Rightarrow> string list \<Rightarrow> Word list \<Rightarrow> error + Word list" where
  "parse_loop fmt file_path lineno [] result = Inr result"
| "parse_loop fmt file_path lineno (line # rest) result =
     (if strip line = [] then parse_loop fmt file_path (Suc lineno) rest result
      else case line_pattern_fullmatch fmt (strip line) of
          None \<Rightarrow> Inl (bad_line fmt file_path lineno Not_a_valid_line)
        | Some w \<Rightarrow>
            if VALID_WORD_PATTERN_fullmatch w = None
            then Inl (bad_line fmt file_path lineno (Invalid_word w))
            else case Word_init w (length result) of
                Inl e \<Rightarrow> Inl e
              | Inr x \<Rightarrow> parse_loop fmt file_path (Suc lineno) rest (result @ [x]))"

text \<open>\<open>parse(self, file, *, file_path)\<close>; the file is the list of the lines it yields.\<close>

definition parse :: "WordlistFormat \<Rightarrow> string list \<Rightarrow> string \<Rightarrow> error + Word list" where
  "parse fmt file file_path = parse_loop fmt file_path 1 file []"

section \<open>The command\<close>

text \<open>
  The values of the options, as \<open>click\<close> receives them from the command line, and in
  \<open>given_order\<close> the options that \<open>click\<close> converts, in the order in which the command
  line gives them. The text of \<open>--wordlist\<close> is taken in the spelling that \<open>pathlib\<close>
  gives it, so that \<open>path_type=Path\<close> hands the same text to the command. An option that
  the command line leaves out is outside the model: \<open>click\<close> reports a required one as
  missing and prompts for the count.
\<close>

record invocation =
  wordlist_format_name :: string
  wordlist_path :: string
  word_count :: int
  quiet :: bool
  join_char :: string
  given_order :: "param list"

text \<open>
  What a path names: a directory, or a regular file with its read permission and the
  lines that iterating over it yields. A path that is not listed names nothing.
\<close>

datatype node = Directory | RegularFile bool "string list"

type_synonym filesystem = "(string \<times> node) list"

text \<open>
  What the command has written to \<open>sys.stdout\<close> and to \<open>sys.stderr\<close>, and the paths it has
  opened. The report that \<open>click\<close> or the interpreter prints for an exception is not part
  of the streams: the exception is the result.
\<close>

record io =
  stdout :: string
  stderr :: string
  opened :: "string list"

definition print_stdout :: "string list \<Rightarrow> io \<Rightarrow> io" where
  "print_stdout args s = s\<lparr>stdout := stdout s @ join '' '' args @ ''\<newline>''\<rparr>"

definition print_stderr :: "string list \<Rightarrow> io \<Rightarrow> io" where
  "print_stderr args s = s\<lparr>stderr := stderr s @ join '' '' args @ ''\<newline>''\<rparr>"

text \<open>\<open>type=click.Choice([fmt.value for fmt in WordlistFormat])\<close>\<close>

definition Choice_accepts :: "string \<Rightarrow> bool" where
  "Choice_accepts name = (name \<in> set (map value_of [PLAIN, DICELIST_EFF]))"

text \<open>\<open>type=click.Path(exists=True, dir_okay=False, readable=True, path_type=Path)\<close>\<close>

definition Path_accepts :: "filesystem \<Rightarrow> string \<Rightarrow> bool" where
  "Path_accepts fs p =
     (case map_of fs p of
        None \<Rightarrow> False
      | Some Directory \<Rightarrow> False
      | Some (RegularFile readable lines) \<Rightarrow> readable)"

text \<open>\<open>type=click.IntRange(min=1)\<close>\<close>

definition IntRange_accepts :: "int \<Rightarrow> bool" where
  "IntRange_accepts n = (1 \<le> n)"

text \<open>The options that fail their conversion, in the order of their declaration.\<close>

definition rejected_params :: "filesystem \<Rightarrow> invocation \<Rightarrow> param list" where
  "rejected_params fs opts =
     (if Choice_accepts (wordlist_format_name opts) then [] else [WORDLIST_FORMAT])
     @ (if Path_accepts fs (wordlist_path opts) then [] else [WORDLIST])
     @ (if IntRange_accepts (word_count opts) then [] else [COUNT])"

text \<open>\<open>WordlistFormat(wordlist_format_name)\<close>: the member with that value.\<close>

definition WordlistFormat_of_value :: "string \<Rightarrow> error + WordlistFormat" where
  "WordlistFormat_of_value name =
     (if name = value_of PLAIN then Inr PLAIN
      else if name = value_of DICELIST_EFF then Inr DICELIST_EFF
      else Inl (ValueError name))"

text \<open>\<open>open(wordlist_path)\<close>\<close>

definition open_file :: "filesystem \<Rightarrow> string \<Rightarrow> error + string list" where
  "open_file fs p =
     (case map_of fs p of
        None \<Rightarrow> Inl FileNotFoundError
      | Some Directory \<Rightarrow> Inl IsADirectoryError
      | Some (RegularFile readable lines) \<Rightarrow> if readable then Inr lines else Inl PermissionError)"

text \<open>
  \<open>secrets.choice(seq)\<close> raises \<open>IndexError\<close> on an empty sequence and returns
  \<open>seq[randbelow(len(seq))]\<close> otherwise. The system's random source is a parameter: \<open>r\<close> is
  what it yields for this draw, and the index is \<open>r\<close> brought below the length.
\<close>

definition choice :: "nat \<Rightarrow> 'a list \<Rightarrow> error + 'a" where
  "choice r seq = (if seq = [] then Inl IndexError else Inr (seq ! (r mod length seq)))"

text \<open>
  The loop \<open>for i in range(word_count)\<close>: the values of \<open>i\<close> still to come, \<open>result_words\<close>
  and the streams. \<open>rnd i\<close> is what the random source yields for draw \<open>i\<close>.
\<close>

fun pick_loop ::
  "bool \<Rightarrow> Word list \<Rightarrow> (nat \<Rightarrow> nat) \<Rightarrow> nat list \<Rightarrow> string list \<Rightarrow> io
     \<Rightarrow> io \<times> (error + string list)" where
  "pick_loop q wordlist rnd [] result_words s = (s, Inr result_words)"
| "pick_loop q wordlist rnd (i # rest) result_words s =
     (case choice (rnd i) wordlist of
        Inl e \<Rightarrow> (s, Inl e)
      | Inr pick \<Rightarrow>
          pick_loop q wordlist rnd rest (result_words @ [word pick])
            (if q then s else print_stderr [format_02 i @ '' picked'', describe pick] s))"

text \<open>The body of \<open>generate_passphrase\<close>.\<close>

definition generate_passphrase :: "filesystem \<Rightarrow> (nat \<Rightarrow> nat) \<Rightarrow> invocation \<Rightarrow> io \<times> (error + unit)" where
  "generate_passphrase fs rnd opts =
     (let s0 = \<lparr>stdout = [], stderr = [], opened = []\<rparr> in
      if length (join_char opts) \<noteq> 1 then (s0, Inl (JoinCharException (join_char opts)))
      else case WordlistFormat_of_value (wordlist_format_name opts) of
          Inl e \<Rightarrow> (s0, Inl e)
        | Inr wordlist_format \<Rightarrow>
           (case open_file fs (wordlist_path opts) of
              Inl e \<Rightarrow> (s0, Inl e)
            | Inr wordlist_file \<Rightarrow>
               (let s1 = s0\<lparr>opened := [wordlist_path opts]\<rparr> in
                case parse wordlist_format wordlist_file (wordlist_path opts) of
                  Inl e \<Rightarrow> (s1, Inl e)
                | Inr wordlist \<Rightarrow>
                   (case pick_loop (quiet opts) wordlist rnd [0..<nat (word_count opts)] [] s1 of
                      (s2, Inl e) \<Rightarrow> (s2, Inl e)
                    | (s2, Inr result_words) \<Rightarrow>
                       (let s3 = (if quiet opts then s2 else print_stderr [] s2) in
                        if int (length result_words) = word_count opts \<and> word_count opts > 0
                        then (print_stdout [join (join_char opts) result_words] s3, Inr ())
                        else (s3, Inl AssertionError))))))"

text \<open>
  \<open>click\<close> converts the options one after the other, those of the command line first and
  in its order, then the others in the order of their declaration, and raises for the
  first one that fails.
\<close>

definition first_rejected :: "filesystem \<Rightarrow> invocation \<Rightarrow> param option" where
  "first_rejected fs opts =
     find (\<lambda>p. p \<in> set (rejected_params fs opts))
       (given_order opts @ [WORDLIST_FORMAT, WORDLIST, COUNT])"

text \<open>
  The command as \<open>click\<close> runs it: the options are converted first, and the body is called
  only when every one of them is accepted.
\<close>

definition main :: "filesystem \<Rightarrow> (nat \<Rightarrow> nat) \<Rightarrow> invocation \<Rightarrow> io \<times> (error + unit)" where
  "main fs rnd opts =
     (case first_rejected fs opts of
        Some p \<Rightarrow> (\<lparr>stdout = [], stderr = [], opened = []\<rparr>, Inl (BadParameter p))
      | None \<Rightarrow> generate_passphrase fs rnd opts)"

text \<open>Two random sources for the examples: one yields 0 at every draw, one yields \<open>i\<close> at draw \<open>i\<close>.\<close>

definition always_first :: "nat \<Rightarrow> nat" where
  "always_first i = 0"

definition round_robin :: "nat \<Rightarrow> nat" where
  "round_robin i = i"

section \<open>Notions of the specification\<close>

text \<open>A line is blank when nothing is left of it after trimming.\<close>

definition is_blank :: "string \<Rightarrow> bool" where
  "is_blank line = (strip line = [])"

text \<open>The allowed-word pattern in words: one or more word characters or hyphens.\<close>

definition valid_word :: "string \<Rightarrow> bool" where
  "valid_word w = (w \<noteq> [] \<and> (\<forall>c \<in> set w. isword c \<or> c = CHR ''-''))"

text \<open>
  The line pattern of \<open>dicelist-eff\<close> in words: one or more digits, then white space, then
  characters that are not white space.
\<close>

definition dicelist_shape :: "string \<Rightarrow> bool" where
  "dicelist_shape s =
     (\<exists>ds sp w. s = ds @ sp @ w \<and> ds \<noteq> [] \<and> (\<forall>c \<in> set ds. isdecimal c)
        \<and> (\<forall>c \<in> set sp. isspace c) \<and> (\<forall>c \<in> set w. \<not> isspace c))"

text \<open>The word that a line yields under a format, when the line passes both checks.\<close>

definition accepted :: "WordlistFormat \<Rightarrow> string \<Rightarrow> string option" where
  "accepted fmt line =
     (case line_pattern_fullmatch fmt (strip line) of
        None \<Rightarrow> None
      | Some w \<Rightarrow> if VALID_WORD_PATTERN_fullmatch w = None then None else Some w)"

text \<open>The texts \<open>ws\<close> as words numbered from \<open>k\<close>.\<close>

fun numbered :: "nat \<Rightarrow> string list \<Rightarrow> Word list" where
  "numbered k [] = []"
| "numbered k (w # ws) = \<lparr>word = w, index = k\<rparr> # numbered (Suc k) ws"

text \<open>The words that the lines yield: one for each line that is not blank.\<close>

definition words_of :: "WordlistFormat \<Rightarrow> string list \<Rightarrow> string list" where
  "words_of fmt ls = map (\<lambda>l. the (accepted fmt l)) (filter (\<lambda>l. \<not> is_blank l) ls)"

text \<open>The result of \<open>parse\<close> without the line number of its error.\<close>

fun forget_lineno :: "error + 'a \<Rightarrow> error + 'a" where
  "forget_lineno (Inl (InvalidWordlist r n p f)) = Inl (InvalidWordlist r 0 p f)"
| "forget_lineno x = x"

text \<open>The line that the command prints to \<open>sys.stderr\<close> for draw \<open>i\<close> and pick \<open>x\<close>.\<close>

definition pick_line :: "nat \<Rightarrow> Word \<Rightarrow> string" where
  "pick_line i x =
     format_02 i @ '' picked index '' @ dec (index x) @ '': '' @ [CHR 0x27] @ word x @ [CHR 0x27]
       @ ''\<newline>''"

text \<open>The word of draw \<open>i\<close>.\<close>

definition picked :: "Word list \<Rightarrow> (nat \<Rightarrow> nat) \<Rightarrow> nat \<Rightarrow> Word" where
  "picked wordlist rnd i = wordlist ! (rnd i mod length wordlist)"



text \<open>The texts of the first \<open>k\<close> draws, in the order of the draws.\<close>

definition drawn :: "Word list \<Rightarrow> (nat \<Rightarrow> nat) \<Rightarrow> nat \<Rightarrow> string list" where
  "drawn wordlist rnd k = map (\<lambda>i. word (picked wordlist rnd i)) [0..<k]"

text \<open>The lines that the first \<open>k\<close> draws print to \<open>sys.stderr\<close>.\<close>

definition pick_lines :: "Word list \<Rightarrow> (nat \<Rightarrow> nat) \<Rightarrow> nat \<Rightarrow> string list" where
  "pick_lines wordlist rnd k = map (\<lambda>i. pick_line i (picked wordlist rnd i)) [0..<k]"

section \<open>Characters and patterns\<close>

lemma ord_hyphen: "ord (CHR ''-'') = 45"
  by (simp add: ord_def)

lemma ord_newline: "ord (CHR ''\<newline>'') = 10"
  by (simp add: ord_def)

lemma isdecimal_not_isspace: "isdecimal c \<Longrightarrow> \<not> isspace c"
  by (auto simp: isdecimal_def isspace_def)

lemma fullmatch_valid_word:
  "VALID_WORD_PATTERN_fullmatch s = (if valid_word s then Some s else None)"
  by (simp add: VALID_WORD_PATTERN_fullmatch_def valid_word_def list_all_iff)

lemma dicelist_fullmatch_shape: "DICELIST_EFF_fullmatch s \<noteq> None \<Longrightarrow> dicelist_shape s"
proof -
  assume m: "DICELIST_EFF_fullmatch s \<noteq> None"
  let ?ds = "takeWhile isdecimal s"
  let ?r = "dropWhile isdecimal s"
  let ?sp = "takeWhile isspace ?r"
  let ?w = "dropWhile isspace ?r"
  from m have ne: "?ds \<noteq> []" and w: "list_all (\<lambda>c. \<not> isspace c) ?w"
    by (auto simp: DICELIST_EFF_fullmatch_def Let_def split: if_splits)
  have "s = ?ds @ ?sp @ ?w" by simp
  moreover have "\<forall>c \<in> set ?ds. isdecimal c" by (auto dest: set_takeWhileD)
  moreover have "\<forall>c \<in> set ?sp. isspace c" by (auto dest: set_takeWhileD)
  moreover from w have "\<forall>c \<in> set ?w. \<not> isspace c" by (simp add: list_all_iff)
  ultimately show ?thesis using ne unfolding dicelist_shape_def by blast
qed

lemma shape_dicelist_fullmatch: "dicelist_shape s \<Longrightarrow> DICELIST_EFF_fullmatch s \<noteq> None"
proof -
  assume "dicelist_shape s"
  then obtain ds sp w where s: "s = ds @ sp @ w" and ne: "ds \<noteq> []"
    and d: "\<forall>c \<in> set ds. isdecimal c" and p: "\<forall>c \<in> set sp. isspace c"
    and w: "\<forall>c \<in> set w. \<not> isspace c"
    unfolding dicelist_shape_def by blast
  from ne d have "takeWhile isdecimal s \<noteq> []"
    by (cases ds) (auto simp: s)
  moreover have "\<forall>c \<in> set (dropWhile isspace (dropWhile isdecimal s)). \<not> isspace c"
  proof (cases sp)
    case Nil
    with d have "dropWhile isdecimal s = dropWhile isdecimal w"
      by (simp add: s dropWhile_append)
    then show ?thesis using w by (auto dest!: set_dropWhileD)
  next
    case (Cons a sp')
    with p have "\<not> isdecimal a" by (auto dest: isdecimal_not_isspace)
    with d Cons have "dropWhile isdecimal s = sp @ w"
      by (simp add: s dropWhile_append)
    moreover from p have "dropWhile isspace (sp @ w) = dropWhile isspace w"
      by (simp add: dropWhile_append)
    ultimately show ?thesis using w by (auto dest!: set_dropWhileD)
  qed
  ultimately show ?thesis
    by (simp add: DICELIST_EFF_fullmatch_def Let_def list_all_iff)
qed

text \<open>
  The greedy reading of the \<open>dicelist-eff\<close> pattern finds a match exactly when the text has
  the shape of the pattern, so backtracking adds no match.
\<close>

lemma dicelist_fullmatch_iff: "DICELIST_EFF_fullmatch s \<noteq> None \<longleftrightarrow> dicelist_shape s"
  using dicelist_fullmatch_shape shape_dicelist_fullmatch by blast

lemma strip_Nil_iff: "strip s = [] \<longleftrightarrow> (\<forall>c \<in> set s. isspace c)"
proof
  assume "strip s = []"
  then have a: "\<forall>x \<in> set (dropWhile isspace s). isspace x"
    by (simp add: strip_def dropWhile_eq_Nil_conv)
  have "dropWhile isspace s = []"
  proof (rule ccontr)
    assume ne: "dropWhile isspace s \<noteq> []"
    then have "\<not> isspace (hd (dropWhile isspace s))" by (rule hd_dropWhile)
    with a ne show False by simp
  qed
  then show "\<forall>c \<in> set s. isspace c" by (simp add: dropWhile_eq_Nil_conv)
next
  assume "\<forall>c \<in> set s. isspace c"
  then show "strip s = []" by (auto simp: strip_def dest: set_dropWhileD)
qed

section \<open>The parser\<close>

lemma bad_line_pos: "1 \<le> n \<Longrightarrow> bad_line fmt fp n r = InvalidWordlist r n fp fmt"
  by (simp add: bad_line_def)

lemma length_numbered: "length (numbered k ws) = length ws"
  by (induction ws arbitrary: k) simp_all

lemma map_word_numbered: "map word (numbered k ws) = ws"
  by (induction ws arbitrary: k) simp_all

lemma map_index_numbered: "map index (numbered k ws) = [k..<k + length ws]"
  by (induction ws arbitrary: k) (simp_all del: upt_Suc add: upt_conv_Cons)

lemma nth_numbered: "i < length ws \<Longrightarrow> numbered k ws ! i = \<lparr>word = ws ! i, index = k + i\<rparr>"
proof (induction ws arbitrary: k i)
  case Nil
  then show ?case by simp
next
  case (Cons w ws)
  then show ?case by (cases i) simp_all
qed

text \<open>One step of the loop, by the kind of the line.\<close>

lemma parse_loop_blank:
  "is_blank l \<Longrightarrow> parse_loop fmt fp n (l # ls) res = parse_loop fmt fp (Suc n) ls res"
  by (simp add: is_blank_def)

lemma parse_loop_accepted:
  "\<not> is_blank l \<Longrightarrow> accepted fmt l = Some w \<Longrightarrow>
   parse_loop fmt fp n (l # ls) res
     = parse_loop fmt fp (Suc n) ls (res @ [\<lparr>word = w, index = length res\<rparr>])"
  by (auto simp: is_blank_def accepted_def Word_init_def split: option.splits if_splits)

lemma parse_loop_no_match:
  "\<not> is_blank l \<Longrightarrow> line_pattern_fullmatch fmt (strip l) = None \<Longrightarrow>
   parse_loop fmt fp n (l # ls) res = Inl (bad_line fmt fp n Not_a_valid_line)"
  by (simp add: is_blank_def)

lemma parse_loop_invalid_word:
  "\<not> is_blank l \<Longrightarrow> line_pattern_fullmatch fmt (strip l) = Some w \<Longrightarrow>
   VALID_WORD_PATTERN_fullmatch w = None \<Longrightarrow>
   parse_loop fmt fp n (l # ls) res = Inl (bad_line fmt fp n (Invalid_word w))"
  by (simp add: is_blank_def)

declare parse_loop.simps(2) [simp del]

text \<open>The loop over lines that are all blank or accepted.\<close>

lemma parse_loop_append_ok:
  "\<forall>l \<in> set pre. is_blank l \<or> accepted fmt l \<noteq> None \<Longrightarrow>
   parse_loop fmt fp n (pre @ rest) res
     = parse_loop fmt fp (n + length pre) rest (res @ numbered (length res) (words_of fmt pre))"
proof (induction pre arbitrary: n res)
  case Nil
  then show ?case by (simp add: words_of_def)
next
  case (Cons l pre)
  from Cons.prems have ok: "\<forall>l \<in> set pre. is_blank l \<or> accepted fmt l \<noteq> None" by simp
  show ?case
  proof (cases "is_blank l")
    case True
    have "parse_loop fmt fp n ((l # pre) @ rest) res = parse_loop fmt fp (Suc n) (pre @ rest) res"
      using True parse_loop_blank [of l fmt fp n "pre @ rest" res] by simp
    also note Cons.IH [OF ok]
    finally show ?thesis using True by (simp add: words_of_def)
  next
    case False
    with Cons.prems obtain w where w: "accepted fmt l = Some w" by auto
    let ?res = "res @ [\<lparr>word = w, index = length res\<rparr>]"
    have "parse_loop fmt fp n ((l # pre) @ rest) res = parse_loop fmt fp (Suc n) (pre @ rest) ?res"
      using False w parse_loop_accepted [of l fmt w fp n "pre @ rest" res] by simp
    also note Cons.IH [OF ok]
    finally show ?thesis using False w by (simp add: words_of_def)
  qed
qed

lemma parse_ok:
  "\<forall>l \<in> set ls. is_blank l \<or> accepted fmt l \<noteq> None \<Longrightarrow>
   parse fmt ls fp = Inr (numbered 0 (words_of fmt ls))"
  using parse_loop_append_ok [of ls fmt fp 1 "[]" "[]"] by (simp add: parse_def)


lemma line_cases:
  obtains (blank) "is_blank l"
  | (no_match) "\<not> is_blank l" "line_pattern_fullmatch fmt (strip l) = None"
  | (invalid) w where "\<not> is_blank l" "line_pattern_fullmatch fmt (strip l) = Some w"
      "VALID_WORD_PATTERN_fullmatch w = None"
  | (ok) w where "\<not> is_blank l" "accepted fmt l = Some w"
proof (cases "is_blank l")
  case True
  then show ?thesis by (rule blank)
next
  case nb: False
  show ?thesis
  proof (cases "line_pattern_fullmatch fmt (strip l)")
    case None
    with nb show ?thesis by (rule no_match)
  next
    case (Some w)
    show ?thesis
    proof (cases "VALID_WORD_PATTERN_fullmatch w = None")
      case True
      with nb Some show ?thesis by (rule invalid)
    next
      case False
      with Some have "accepted fmt l = Some w" by (simp add: accepted_def)
      with nb show ?thesis by (rule ok)
    qed
  qed
qed

lemma accepted_no_match: "line_pattern_fullmatch fmt (strip l) = None \<Longrightarrow> accepted fmt l = None"
  by (simp add: accepted_def)

lemma accepted_invalid:
  "line_pattern_fullmatch fmt (strip l) = Some w \<Longrightarrow> VALID_WORD_PATTERN_fullmatch w = None \<Longrightarrow>
   accepted fmt l = None"
  by (simp add: accepted_def)

lemma accepted_valid: "accepted fmt l = Some w \<Longrightarrow> valid_word w"
  by (auto simp: accepted_def fullmatch_valid_word split: option.splits if_splits)

lemma parse_loop_Inr:
  "parse_loop fmt fp n ls res = Inr ws \<Longrightarrow> \<forall>l \<in> set ls. is_blank l \<or> accepted fmt l \<noteq> None"
proof (induction ls arbitrary: n res)
  case Nil
  then show ?case by simp
next
  case (Cons l ls)
  show ?case
  proof (cases rule: line_cases [where l = l and fmt = fmt])
    case blank
    with Cons.prems have "parse_loop fmt fp (Suc n) ls res = Inr ws"
      by (simp add: parse_loop_blank)
    from Cons.IH [OF this] blank show ?thesis by simp
  next
    case no_match
    with Cons.prems show ?thesis by (simp add: parse_loop_no_match)
  next
    case (invalid w)
    with Cons.prems show ?thesis by (simp add: parse_loop_invalid_word)
  next
    case (ok w)
    with Cons.prems
    have "parse_loop fmt fp (Suc n) ls (res @ [\<lparr>word = w, index = length res\<rparr>]) = Inr ws"
      by (simp add: parse_loop_accepted)
    from Cons.IH [OF this] ok show ?thesis by simp
  qed
qed

lemma parse_loop_Inl:
  "1 \<le> n \<Longrightarrow> parse_loop fmt fp n ls res = Inl e \<Longrightarrow>
   \<exists>pre l post r. ls = pre @ l # post
     \<and> (\<forall>x \<in> set pre. is_blank x \<or> accepted fmt x \<noteq> None) \<and> \<not> is_blank l
     \<and> e = InvalidWordlist r (n + length pre) fp fmt
     \<and> (line_pattern_fullmatch fmt (strip l) = None \<and> r = Not_a_valid_line
        \<or> (\<exists>w. line_pattern_fullmatch fmt (strip l) = Some w
              \<and> VALID_WORD_PATTERN_fullmatch w = None \<and> r = Invalid_word w))"
proof (induction ls arbitrary: n res)
  case Nil
  then show ?case by simp
next
  case (Cons l ls)
  let ?P = "\<lambda>n ls pre l post r. ls = pre @ l # post
     \<and> (\<forall>x \<in> set pre. is_blank x \<or> accepted fmt x \<noteq> None) \<and> \<not> is_blank l
     \<and> e = InvalidWordlist r (n + length pre) fp fmt
     \<and> (line_pattern_fullmatch fmt (strip l) = None \<and> r = Not_a_valid_line
        \<or> (\<exists>w. line_pattern_fullmatch fmt (strip l) = Some w
              \<and> VALID_WORD_PATTERN_fullmatch w = None \<and> r = Invalid_word w))"
  have step: "\<exists>pre l' post r. ?P n (l # ls) pre l' post r"
    if ok: "is_blank l \<or> accepted fmt l \<noteq> None"
      and rest: "parse_loop fmt fp (Suc n) ls res' = Inl e" for res'
  proof -
    from Cons.IH [OF _ rest] obtain pre l' post r where "?P (Suc n) ls pre l' post r"
      by auto
    with ok have "?P n (l # ls) (l # pre) l' post r" by simp
    then show ?thesis by blast
  qed
  show ?case
  proof (cases rule: line_cases [where l = l and fmt = fmt])
    case blank
    with Cons.prems have "parse_loop fmt fp (Suc n) ls res = Inl e"
      by (simp add: parse_loop_blank)
    with blank show ?thesis by (intro step) simp_all
  next
    case no_match
    with Cons.prems have "e = InvalidWordlist Not_a_valid_line n fp fmt"
      by (simp add: parse_loop_no_match bad_line_pos)
    with no_match have "?P n (l # ls) [] l ls Not_a_valid_line" by simp
    then show ?thesis by blast
  next
    case (invalid w)
    with Cons.prems have "e = InvalidWordlist (Invalid_word w) n fp fmt"
      by (simp add: parse_loop_invalid_word bad_line_pos)
    with invalid have "?P n (l # ls) [] l ls (Invalid_word w)" by simp
    then show ?thesis by blast
  next
    case (ok w)
    with Cons.prems
    have "parse_loop fmt fp (Suc n) ls (res @ [\<lparr>word = w, index = length res\<rparr>]) = Inl e"
      by (simp add: parse_loop_accepted)
    with ok show ?thesis by (intro step) simp_all
  qed
qed

lemma forget_parse_loop_filter:
  "1 \<le> n \<Longrightarrow> 1 \<le> m \<Longrightarrow>
   forget_lineno (parse_loop fmt fp n ls res)
     = forget_lineno (parse_loop fmt fp m (filter (\<lambda>l. \<not> is_blank l) ls) res)"
proof (induction ls arbitrary: n m res)
  case Nil
  then show ?case by simp
next
  case (Cons l ls)
  show ?case
  proof (cases rule: line_cases [where l = l and fmt = fmt])
    case blank
    with Cons.IH [of "Suc n" m res] Cons.prems show ?thesis
      by (simp add: parse_loop_blank)
  next
    case no_match
    with Cons.prems show ?thesis by (simp add: parse_loop_no_match bad_line_pos)
  next
    case (invalid w)
    with Cons.prems show ?thesis by (simp add: parse_loop_invalid_word bad_line_pos)
  next
    case (ok w)
    with Cons.IH [of "Suc n" "Suc m" "res @ [\<lparr>word = w, index = length res\<rparr>]"] show ?thesis
      by (simp add: parse_loop_accepted)
  qed
qed

lemma forget_Inr: "forget_lineno x = Inr ws \<longleftrightarrow> x = Inr ws"
  by (cases x rule: forget_lineno.cases) simp_all


lemma parse_valid_words:
  assumes "parse fmt ls fp = Inr ws"
  shows "\<forall>y \<in> set ws. valid_word (word y)"
proof -
  from assms have ok: "\<forall>l \<in> set ls. is_blank l \<or> accepted fmt l \<noteq> None"
    unfolding parse_def by (rule parse_loop_Inr)
  from parse_ok [OF this, of fp] assms have "map word ws = words_of fmt ls"
    by (simp add: map_word_numbered)
  then have "word ` set ws = set (words_of fmt ls)" by (metis set_map)
  moreover have "\<forall>v \<in> set (words_of fmt ls). valid_word v"
  proof
    fix v assume "v \<in> set (words_of fmt ls)"
    then obtain l where l: "l \<in> set ls" "\<not> is_blank l" and v: "v = the (accepted fmt l)"
      by (auto simp: words_of_def)
    with ok obtain u where "accepted fmt l = Some u" by auto
    with v show "valid_word v" by (simp add: accepted_valid)
  qed
  ultimately show ?thesis by blast
qed

section \<open>The claims about the parser\<close>

lemma accepted_plain: "valid_word (strip l) \<Longrightarrow> accepted PLAIN l = Some (strip l)"
  by (simp add: accepted_def line_pattern_fullmatch_def fullmatch_valid_word)

lemma words_of_plain:
  "\<forall>l \<in> set ls. is_blank l \<or> valid_word (strip l) \<Longrightarrow>
   words_of PLAIN ls = map strip (filter (\<lambda>l. \<not> is_blank l) ls)"
  by (auto simp: words_of_def accepted_plain)

text \<open>
  C2. A plain wordlist is valid when every line that is not blank is, once trimmed, one or
  more word characters or hyphens. For such a file with \<open>N\<close> lines that are not blank,
  \<open>parse\<close> returns \<open>N\<close> words, their texts the trimmed lines in file order, their indices
  \<open>0..N-1\<close>, each the position of its word in the list.
\<close>

theorem plain_parse_indices:
  assumes "\<forall>l \<in> set ls. is_blank l \<or> valid_word (strip l)"
  shows "\<exists>ws. parse PLAIN ls fp = Inr ws
     \<and> length ws = length (filter (\<lambda>l. \<not> is_blank l) ls)
     \<and> map word ws = map strip (filter (\<lambda>l. \<not> is_blank l) ls)
     \<and> map index ws = [0..<length ws]
     \<and> (\<forall>i < length ws. index (ws ! i) = i)"
proof -
  let ?texts = "map strip (filter (\<lambda>l. \<not> is_blank l) ls)"
  let ?ws = "numbered 0 ?texts"
  from assms have "\<forall>l \<in> set ls. is_blank l \<or> accepted PLAIN l \<noteq> None"
    by (auto simp: accepted_plain)
  then have "parse PLAIN ls fp = Inr (numbered 0 (words_of PLAIN ls))" by (rule parse_ok)
  with assms have p: "parse PLAIN ls fp = Inr ?ws" by (simp add: words_of_plain)
  have len: "length ?ws = length (filter (\<lambda>l. \<not> is_blank l) ls)"
    by (simp add: length_numbered)
  have w: "map word ?ws = ?texts" by (rule map_word_numbered)
  have i: "map index ?ws = [0..<length ?ws]"
    by (simp add: map_index_numbered length_numbered)
  have "\<forall>i < length ?ws. index (?ws ! i) = i"
    by (simp add: length_numbered nth_numbered)
  with p len w i show ?thesis by blast
qed

theorem plain_parse_indices_witness:
  "list_all (\<lambda>l. is_blank l \<or> valid_word (strip l))
       [''alpha\<newline>'', ''\<newline>'', '' be-ta \<newline>'', ''gamma'']
   \<and> (\<exists>ws. parse PLAIN [''alpha\<newline>'', ''\<newline>'', '' be-ta \<newline>'', ''gamma''] ''words.txt'' = Inr ws
     \<and> length ws = 3 \<and> map word ws = [''alpha'', ''be-ta'', ''gamma'']
     \<and> map index ws = [0, 1, 2])"
proof -
  let ?ls = "[''alpha\<newline>'', ''\<newline>'', '' be-ta \<newline>'', ''gamma'']"
  have s: "map strip ?ls = [''alpha'', [], ''be-ta'', ''gamma'']" by code_simp
  have h: "\<forall>l \<in> set ?ls. is_blank l \<or> valid_word (strip l)" by code_simp
  have f: "map strip (filter (\<lambda>l. \<not> is_blank l) ?ls) = [''alpha'', ''be-ta'', ''gamma'']"
    by code_simp
  from plain_parse_indices [OF h, of "''words.txt''"] obtain ws
    where "parse PLAIN ?ls ''words.txt'' = Inr ws"
      and "length ws = length (filter (\<lambda>l. \<not> is_blank l) ?ls)"
      and "map word ws = map strip (filter (\<lambda>l. \<not> is_blank l) ?ls)"
      and "map index ws = [0..<length ws]"
    by blast
  moreover have "length (filter (\<lambda>l. \<not> is_blank l) ?ls) = 3" by code_simp
  moreover have "[0..<3] = [0, 1, 2::nat]" by code_simp
  ultimately show ?thesis using h f by (auto simp: list_all_iff)
qed




lemma digits_fullmatch:
  assumes "s \<noteq> []" "\<forall>c \<in> set s. isdecimal c"
  shows "DICELIST_EFF_fullmatch s = Some []"
proof -
  from assms have t: "takeWhile isdecimal s = s" and d: "dropWhile isdecimal s = []"
    by simp_all
  show ?thesis unfolding DICELIST_EFF_fullmatch_def Let_def t d using assms(1) by simp
qed

lemma fullmatch_Nil: "VALID_WORD_PATTERN_fullmatch [] = None"
  by (simp add: VALID_WORD_PATTERN_fullmatch_def)

lemma parse_single_accepted:
  "\<not> is_blank l \<Longrightarrow> accepted fmt l = Some w \<Longrightarrow> parse fmt [l] fp = Inr [\<lparr>word = w, index = 0\<rparr>]"
  by (simp add: parse_def parse_loop_accepted)

text \<open>
  C4. Under \<open>dicelist-eff\<close>, a line that trims to \<open>42  correct\<close> parses to the single word
  \<open>correct\<close>. A line that trims to digits only matches the line pattern with the empty
  text as its captured word, the empty text does not match the allowed-word pattern, and
  \<open>parse\<close> fails with \<open>InvalidWordlist\<close>, reason \<open>Invalid word ''\<close>.
\<close>

theorem dicelist_example_lines:
  "(strip l = ''42  correct'' \<longrightarrow>
      parse DICELIST_EFF [l] fp = Inr [\<lparr>word = ''correct'', index = 0\<rparr>])
   \<and> (strip l' \<noteq> [] \<and> (\<forall>c \<in> set (strip l'). isdecimal c) \<longrightarrow>
        line_pattern_fullmatch DICELIST_EFF (strip l') = Some []
        \<and> VALID_WORD_PATTERN_fullmatch [] = None
        \<and> parse DICELIST_EFF [l'] fp = Inl (InvalidWordlist (Invalid_word []) 1 fp DICELIST_EFF))"
proof (intro conjI impI)
  assume s: "strip l = ''42  correct''"
  have "DICELIST_EFF_fullmatch ''42  correct'' = Some ''correct''" by code_simp
  moreover have "VALID_WORD_PATTERN_fullmatch ''correct'' = Some ''correct''" by code_simp
  ultimately have "accepted DICELIST_EFF l = Some ''correct''"
    by (simp add: accepted_def line_pattern_fullmatch_def s)
  moreover from s have "\<not> is_blank l" by (simp add: is_blank_def)
  ultimately show "parse DICELIST_EFF [l] fp = Inr [\<lparr>word = ''correct'', index = 0\<rparr>]"
    by (rule parse_single_accepted [rotated])
next
  assume d: "strip l' \<noteq> [] \<and> (\<forall>c \<in> set (strip l'). isdecimal c)"
  then show m: "line_pattern_fullmatch DICELIST_EFF (strip l') = Some []"
    by (simp add: line_pattern_fullmatch_def digits_fullmatch)
  show "VALID_WORD_PATTERN_fullmatch [] = None" by (rule fullmatch_Nil)
  from d have "\<not> is_blank l'" by (simp add: is_blank_def)
  from parse_loop_invalid_word [OF this m fullmatch_Nil]
  show "parse DICELIST_EFF [l'] fp = Inl (InvalidWordlist (Invalid_word []) 1 fp DICELIST_EFF)"
    by (simp add: parse_def bad_line_pos)
qed

theorem dicelist_example_lines_witness:
  "strip ''42  correct\<newline>'' = ''42  correct''
   \<and> parse DICELIST_EFF [''42  correct\<newline>''] ''eff.txt'' = Inr [\<lparr>word = ''correct'', index = 0\<rparr>]
   \<and> strip ''42  \<newline>'' = ''42'' \<and> list_all isdecimal ''42''
   \<and> line_pattern_fullmatch DICELIST_EFF ''42'' = Some []
   \<and> parse DICELIST_EFF [''42  \<newline>''] ''eff.txt''
       = Inl (InvalidWordlist (Invalid_word []) 1 ''eff.txt'' DICELIST_EFF)"
proof -
  have a: "strip ''42  correct\<newline>'' = ''42  correct''" by code_simp
  have b: "strip ''42  \<newline>'' = ''42''" by code_simp
  have c: "list_all isdecimal ''42''" by code_simp
  from c have c': "strip ''42  \<newline>'' \<noteq> [] \<and> (\<forall>c \<in> set (strip ''42  \<newline>''). isdecimal c)"
    by (simp add: b list_all_iff)
  from dicelist_example_lines [of "''42  correct\<newline>''" "''eff.txt''" "''42  \<newline>''"] a b c c'
  show ?thesis by simp
qed

text \<open>
  C5, as stated, fails: the blank line in front of a line that is not valid moves the line
  number that the error reports from 1 to 2, so the two results differ.
\<close>

theorem blank_lines_counterexample:
  "parse PLAIN [''\<newline>'', ''two words\<newline>''] ''words.txt''
     = Inl (InvalidWordlist Not_a_valid_line 2 ''words.txt'' PLAIN)
   \<and> parse PLAIN [''two words\<newline>''] ''words.txt''
     = Inl (InvalidWordlist Not_a_valid_line 1 ''words.txt'' PLAIN)
   \<and> is_blank ''\<newline>''
   \<and> parse PLAIN [''\<newline>'', ''two words\<newline>''] ''words.txt''
     \<noteq> parse PLAIN [''two words\<newline>''] ''words.txt''"
proof -
  have a: "parse PLAIN [''\<newline>'', ''two words\<newline>''] ''words.txt''
     = Inl (InvalidWordlist Not_a_valid_line 2 ''words.txt'' PLAIN)" by code_simp
  have b: "parse PLAIN [''two words\<newline>''] ''words.txt''
     = Inl (InvalidWordlist Not_a_valid_line 1 ''words.txt'' PLAIN)" by code_simp
  have c: "is_blank ''\<newline>''" by code_simp
  from a b c show ?thesis by simp
qed

text \<open>
  C5, amended. Two files with the same lines apart from blank ones, in any positions, have
  the same result of \<open>parse\<close> under every format up to the line number of an error: when
  one returns a list of words the other returns the same list, and when one fails the
  other fails with the same reason, path and format. So a blank line never changes the
  count or the indices of the words and never causes an error.
\<close>

theorem blank_lines_ignored:
  assumes "filter (\<lambda>l. \<not> is_blank l) ls = filter (\<lambda>l. \<not> is_blank l) ls'"
  shows "forget_lineno (parse fmt ls fp) = forget_lineno (parse fmt ls' fp)
     \<and> (parse fmt ls fp = Inr ws \<longleftrightarrow> parse fmt ls' fp = Inr ws)"
proof -
  have "forget_lineno (parse fmt ls fp)
      = forget_lineno (parse_loop fmt fp 1 (filter (\<lambda>l. \<not> is_blank l) ls) [])"
    unfolding parse_def by (rule forget_parse_loop_filter) simp_all
  moreover have "forget_lineno (parse fmt ls' fp)
      = forget_lineno (parse_loop fmt fp 1 (filter (\<lambda>l. \<not> is_blank l) ls') [])"
    unfolding parse_def by (rule forget_parse_loop_filter) simp_all
  ultimately have eq: "forget_lineno (parse fmt ls fp) = forget_lineno (parse fmt ls' fp)"
    using assms by simp
  have "parse fmt ls fp = Inr ws \<longleftrightarrow> forget_lineno (parse fmt ls fp) = Inr ws"
    by (simp only: forget_Inr)
  also have "\<dots> \<longleftrightarrow> forget_lineno (parse fmt ls' fp) = Inr ws"
    by (simp only: eq)
  also have "\<dots> \<longleftrightarrow> parse fmt ls' fp = Inr ws"
    by (simp only: forget_Inr)
  finally show ?thesis using eq by blast
qed

theorem blank_lines_ignored_witness:
  "filter (\<lambda>l. \<not> is_blank l) [''\<newline>'', ''alpha\<newline>'', ''  \<newline>'', ''beta\<newline>'', ''two words\<newline>'']
     = filter (\<lambda>l. \<not> is_blank l) [''alpha\<newline>'', ''beta\<newline>'', ''\<newline>'', ''two words\<newline>'']
   \<and> forget_lineno (parse PLAIN [''\<newline>'', ''alpha\<newline>'', ''  \<newline>'', ''beta\<newline>'', ''two words\<newline>''] ''w'')
     = forget_lineno (parse PLAIN [''alpha\<newline>'', ''beta\<newline>'', ''\<newline>'', ''two words\<newline>''] ''w'')
   \<and> filter (\<lambda>l. \<not> is_blank l) [''\<newline>'', ''alpha\<newline>'', ''  \<newline>'', ''beta\<newline>'']
     = filter (\<lambda>l. \<not> is_blank l) [''alpha\<newline>'', ''beta\<newline>'']
   \<and> parse PLAIN [''\<newline>'', ''alpha\<newline>'', ''  \<newline>'', ''beta\<newline>''] ''w''
     = Inr [\<lparr>word = ''alpha'', index = 0\<rparr>, \<lparr>word = ''beta'', index = 1\<rparr>]
   \<and> parse PLAIN [''alpha\<newline>'', ''beta\<newline>''] ''w''
     = Inr [\<lparr>word = ''alpha'', index = 0\<rparr>, \<lparr>word = ''beta'', index = 1\<rparr>]"
proof -
  let ?a = "[''\<newline>'', ''alpha\<newline>'', ''  \<newline>'', ''beta\<newline>'', ''two words\<newline>'']"
  let ?b = "[''alpha\<newline>'', ''beta\<newline>'', ''\<newline>'', ''two words\<newline>'']"
  let ?c = "[''\<newline>'', ''alpha\<newline>'', ''  \<newline>'', ''beta\<newline>'']"
  let ?d = "[''alpha\<newline>'', ''beta\<newline>'']"
  have h1: "filter (\<lambda>l. \<not> is_blank l) ?a = filter (\<lambda>l. \<not> is_blank l) ?b" by code_simp
  have h2: "filter (\<lambda>l. \<not> is_blank l) ?c = filter (\<lambda>l. \<not> is_blank l) ?d" by code_simp
  have d: "parse PLAIN ?d ''w'' = Inr [\<lparr>word = ''alpha'', index = 0\<rparr>, \<lparr>word = ''beta'', index = 1\<rparr>]"
    by code_simp
  from blank_lines_ignored [OF h1, of PLAIN "''w''"]
    blank_lines_ignored [OF h2, of PLAIN "''w''" "[\<lparr>word = ''alpha'', index = 0\<rparr>, \<lparr>word = ''beta'', index = 1\<rparr>]"]
    h1 h2 d
  show ?thesis by simp
qed




text \<open>
  C6, as stated, fails under \<open>dicelist-eff\<close>: the second line of this file does not match
  the line pattern, but the first line, which matches it with an empty word, is rejected
  before, and \<open>parse\<close> fails with \<open>Invalid word ''\<close> at line 1, not with
  \<open>Not a valid line\<close> at line 2.
\<close>

theorem not_a_valid_line_counterexample:
  "\<not> is_blank ''43 two words\<newline>''
   \<and> line_pattern_fullmatch DICELIST_EFF (strip ''43 two words\<newline>'') = None
   \<and> parse DICELIST_EFF [''42\<newline>'', ''43 two words\<newline>''] ''eff.txt''
       = Inl (InvalidWordlist (Invalid_word []) 1 ''eff.txt'' DICELIST_EFF)
   \<and> parse DICELIST_EFF [''42\<newline>'', ''43 two words\<newline>''] ''eff.txt''
       \<noteq> Inl (InvalidWordlist Not_a_valid_line 2 ''eff.txt'' DICELIST_EFF)"
proof -
  have a: "\<not> is_blank ''43 two words\<newline>''" by code_simp
  have b: "line_pattern_fullmatch DICELIST_EFF (strip ''43 two words\<newline>'') = None"
    by code_simp
  have c: "parse DICELIST_EFF [''42\<newline>'', ''43 two words\<newline>''] ''eff.txt''
       = Inl (InvalidWordlist (Invalid_word []) 1 ''eff.txt'' DICELIST_EFF)" by code_simp
  from a b c show ?thesis by simp
qed

text \<open>
  C6, amended. For every format, when some line that is not blank fails the line pattern,
  \<open>parse\<close> returns no list: it fails with \<open>InvalidWordlist\<close> at the first line that is
  neither blank nor accepted, which is that line or an earlier one. When every line
  before it is blank or accepted, the error is \<open>Not a valid line\<close> with the 1-based number
  of that line.
\<close>

theorem not_a_valid_line_reported:
  assumes "ls = pre @ l # post" "\<not> is_blank l" "line_pattern_fullmatch fmt (strip l) = None"
  shows "(\<exists>r pre' l' post'. ls = pre' @ l' # post'
            \<and> (\<forall>x \<in> set pre'. is_blank x \<or> accepted fmt x \<noteq> None)
            \<and> \<not> is_blank l' \<and> accepted fmt l' = None \<and> length pre' \<le> length pre
            \<and> parse fmt ls fp = Inl (InvalidWordlist r (length pre' + 1) fp fmt))
     \<and> ((\<forall>x \<in> set pre. is_blank x \<or> accepted fmt x \<noteq> None) \<longrightarrow>
          parse fmt ls fp = Inl (InvalidWordlist Not_a_valid_line (length pre + 1) fp fmt))"
proof
  from assms(3) have bad: "accepted fmt l = None" by (rule accepted_no_match)
  have "\<not> (\<forall>x \<in> set ls. is_blank x \<or> accepted fmt x \<noteq> None)"
    using assms(1,2) bad by auto
  then have "\<nexists>ws. parse fmt ls fp = Inr ws"
    unfolding parse_def using parse_loop_Inr by blast
  then obtain e where e: "parse_loop fmt fp 1 ls [] = Inl e"
    unfolding parse_def by (cases "parse_loop fmt fp 1 ls []") auto
  from parse_loop_Inl [OF _ e] obtain pre' l' post' r
    where split: "ls = pre' @ l' # post'"
      and ok: "\<forall>x \<in> set pre'. is_blank x \<or> accepted fmt x \<noteq> None"
      and nb: "\<not> is_blank l'"
      and err: "e = InvalidWordlist r (1 + length pre') fp fmt"
      and why: "line_pattern_fullmatch fmt (strip l') = None \<and> r = Not_a_valid_line
        \<or> (\<exists>w. line_pattern_fullmatch fmt (strip l') = Some w
              \<and> VALID_WORD_PATTERN_fullmatch w = None \<and> r = Invalid_word w)"
    by auto
  from why have rej: "accepted fmt l' = None"
    by (auto simp: accepted_no_match accepted_invalid)
  have le: "length pre' \<le> length pre"
  proof (rule ccontr)
    assume "\<not> length pre' \<le> length pre"
    then have lt: "length pre < length pre'" by simp
    with split assms(1) have "pre' ! length pre = l"
      by (metis nth_append nth_append_length)
    with lt have "l \<in> set pre'" by (metis nth_mem)
    with ok assms(2) bad show False by auto
  qed
  from e err have "parse fmt ls fp = Inl (InvalidWordlist r (length pre' + 1) fp fmt)"
    by (simp add: parse_def)
  with split ok nb rej le
  show "\<exists>r pre' l' post'. ls = pre' @ l' # post'
            \<and> (\<forall>x \<in> set pre'. is_blank x \<or> accepted fmt x \<noteq> None)
            \<and> \<not> is_blank l' \<and> accepted fmt l' = None \<and> length pre' \<le> length pre
            \<and> parse fmt ls fp = Inl (InvalidWordlist r (length pre' + 1) fp fmt)"
    by blast
next
  show "(\<forall>x \<in> set pre. is_blank x \<or> accepted fmt x \<noteq> None) \<longrightarrow>
          parse fmt ls fp = Inl (InvalidWordlist Not_a_valid_line (length pre + 1) fp fmt)"
  proof
    assume ok: "\<forall>x \<in> set pre. is_blank x \<or> accepted fmt x \<noteq> None"
    have "parse fmt ls fp
        = parse_loop fmt fp (1 + length pre) (l # post) ([] @ numbered (length ([]::Word list)) (words_of fmt pre))"
      unfolding parse_def assms(1) by (rule parse_loop_append_ok [OF ok])
    also have "\<dots> = Inl (bad_line fmt fp (1 + length pre) Not_a_valid_line)"
      using assms(2,3) by (rule parse_loop_no_match)
    finally show "parse fmt ls fp = Inl (InvalidWordlist Not_a_valid_line (length pre + 1) fp fmt)"
      by (simp add: bad_line_pos)
  qed
qed

theorem not_a_valid_line_reported_witness:
  "[''alpha\<newline>'', ''\<newline>'', ''beta\<newline>'', ''two words\<newline>'', ''three more words\<newline>'']
     = [''alpha\<newline>'', ''\<newline>'', ''beta\<newline>''] @ ''two words\<newline>'' # [''three more words\<newline>'']
   \<and> \<not> is_blank ''two words\<newline>''
   \<and> line_pattern_fullmatch PLAIN (strip ''two words\<newline>'') = None
   \<and> list_all (\<lambda>x. is_blank x \<or> accepted PLAIN x \<noteq> None) [''alpha\<newline>'', ''\<newline>'', ''beta\<newline>'']
   \<and> parse PLAIN [''alpha\<newline>'', ''\<newline>'', ''beta\<newline>'', ''two words\<newline>'', ''three more words\<newline>''] ''words.txt''
       = Inl (InvalidWordlist Not_a_valid_line 4 ''words.txt'' PLAIN)"
proof -
  let ?pre = "[''alpha\<newline>'', ''\<newline>'', ''beta\<newline>'']"
  let ?ls = "[''alpha\<newline>'', ''\<newline>'', ''beta\<newline>'', ''two words\<newline>'', ''three more words\<newline>'']"
  have a: "?ls = ?pre @ ''two words\<newline>'' # [''three more words\<newline>'']" by simp
  have b: "\<not> is_blank ''two words\<newline>''" by code_simp
  have c: "line_pattern_fullmatch PLAIN (strip ''two words\<newline>'') = None" by code_simp
  have d: "list_all (\<lambda>x. is_blank x \<or> accepted PLAIN x \<noteq> None) ?pre" by code_simp
  then have d': "\<forall>x \<in> set ?pre. is_blank x \<or> accepted PLAIN x \<noteq> None"
    by (simp only: list_all_iff)
  from not_a_valid_line_reported [OF a b c, of "''words.txt''"] d'
  have "parse PLAIN ?ls ''words.txt'' = Inl (InvalidWordlist Not_a_valid_line (length ?pre + 1) ''words.txt'' PLAIN)"
    by blast
  with a b c d show ?thesis by simp
qed

text \<open>
  C9. \<open>Word(word=w, index=i)\<close> returns a word only when \<open>w\<close> fully matches the allowed-word
  pattern, that is when \<open>w\<close> is one or more word characters or hyphens, and raises
  \<open>ValueError\<close> otherwise; and every word of a list that \<open>parse\<close> returns, under either
  format, has such a text.
\<close>

theorem word_shape_invariant:
  "(Word_init w i = Inr x \<longrightarrow>
      VALID_WORD_PATTERN_fullmatch (word x) \<noteq> None \<and> valid_word (word x) \<and> word x = w \<and> index x = i)
   \<and> (\<not> valid_word w \<longrightarrow> Word_init w i = Inl (ValueError w))
   \<and> (parse fmt ls fp = Inr ws \<longrightarrow> (\<forall>y \<in> set ws. valid_word (word y)))"
proof (intro conjI impI)
  assume "Word_init w i = Inr x"
  then show "VALID_WORD_PATTERN_fullmatch (word x) \<noteq> None" "valid_word (word x)"
    "word x = w" "index x = i"
    by (auto simp: Word_init_def fullmatch_valid_word split: if_splits)
next
  assume "\<not> valid_word w"
  then show "Word_init w i = Inl (ValueError w)"
    by (simp add: Word_init_def fullmatch_valid_word)
next
  assume "parse fmt ls fp = Inr ws"
  then show "\<forall>y \<in> set ws. valid_word (word y)" by (rule parse_valid_words)
qed

theorem word_shape_invariant_witness:
  "Word_init ''be-ta'' 1 = Inr \<lparr>word = ''be-ta'', index = 1\<rparr> \<and> valid_word ''be-ta''
   \<and> \<not> valid_word ''two words'' \<and> Word_init ''two words'' 1 = Inl (ValueError ''two words'')
   \<and> parse DICELIST_EFF [''11111 abacus\<newline>'', ''11112 be-ta\<newline>''] ''eff.txt''
       = Inr [\<lparr>word = ''abacus'', index = 0\<rparr>, \<lparr>word = ''be-ta'', index = 1\<rparr>]
   \<and> list_all (\<lambda>y. valid_word (word y)) [\<lparr>word = ''abacus'', index = 0\<rparr>, \<lparr>word = ''be-ta'', index = 1\<rparr>]"
proof -
  let ?ws = "[\<lparr>word = ''abacus'', index = 0\<rparr>, \<lparr>word = ''be-ta'', index = 1\<rparr>]"
  have a: "Word_init ''be-ta'' 1 = Inr \<lparr>word = ''be-ta'', index = 1\<rparr>" by code_simp
  have b: "\<not> valid_word ''two words''" by code_simp
  have c: "parse DICELIST_EFF [''11111 abacus\<newline>'', ''11112 be-ta\<newline>''] ''eff.txt'' = Inr ?ws"
    by code_simp
  from word_shape_invariant [of "''be-ta''" 1 "\<lparr>word = ''be-ta'', index = 1\<rparr>"] a
  have v: "valid_word ''be-ta''" by simp
  from word_shape_invariant [of "''two words''" 1] b
  have e: "Word_init ''two words'' 1 = Inl (ValueError ''two words'')" by blast
  from word_shape_invariant [of _ _ _ DICELIST_EFF "[''11111 abacus\<newline>'', ''11112 be-ta\<newline>'']" "''eff.txt''" ?ws] c
  have "\<forall>y \<in> set ?ws. valid_word (word y)" by blast
  then have "list_all (\<lambda>y. valid_word (word y)) ?ws" by (simp only: list_all_iff)
  with a v b e c show ?thesis by blast
qed

text \<open>
  C10. Under \<open>plain\<close>, a text that fully matches the line pattern is its own captured word
  and fully matches the allowed-word pattern, so the only error of \<open>parse\<close> is
  \<open>Not a valid line\<close>: it never raises \<open>InvalidWordlist\<close> with the reason \<open>Invalid word\<close>.
\<close>

theorem plain_invalid_word_unreachable:
  "(line_pattern_fullmatch PLAIN s = Some w \<longrightarrow> w = s \<and> VALID_WORD_PATTERN_fullmatch w \<noteq> None)
   \<and> (parse PLAIN ls fp = Inl e \<longrightarrow> (\<exists>n. e = InvalidWordlist Not_a_valid_line n fp PLAIN))
   \<and> parse PLAIN ls fp \<noteq> Inl (InvalidWordlist (Invalid_word v) n p f)"
proof -
  have m: "w = s \<and> VALID_WORD_PATTERN_fullmatch w \<noteq> None"
    if "line_pattern_fullmatch PLAIN s = Some w" for s w
    using that by (auto simp: line_pattern_fullmatch_def VALID_WORD_PATTERN_fullmatch_def split: if_splits)
  have err: "\<exists>n. e = InvalidWordlist Not_a_valid_line n fp PLAIN" if "parse PLAIN ls fp = Inl e" for e
  proof -
    from that have "parse_loop PLAIN fp 1 ls [] = Inl e" by (simp add: parse_def)
    from parse_loop_Inl [OF _ this] m show ?thesis by fastforce
  qed
  have "parse PLAIN ls fp \<noteq> Inl (InvalidWordlist (Invalid_word v) n p f)"
    using err by fastforce
  with m err show ?thesis by blast
qed

theorem plain_invalid_word_unreachable_witness:
  "line_pattern_fullmatch PLAIN ''be-ta'' = Some ''be-ta''
   \<and> VALID_WORD_PATTERN_fullmatch ''be-ta'' \<noteq> None
   \<and> parse PLAIN [''alpha\<newline>'', ''two words\<newline>''] ''words.txt''
       = Inl (InvalidWordlist Not_a_valid_line 2 ''words.txt'' PLAIN)"
proof -
  have a: "line_pattern_fullmatch PLAIN ''be-ta'' = Some ''be-ta''" by code_simp
  have b: "parse PLAIN [''alpha\<newline>'', ''two words\<newline>''] ''words.txt''
       = Inl (InvalidWordlist Not_a_valid_line 2 ''words.txt'' PLAIN)" by code_simp
  from plain_invalid_word_unreachable [of "''be-ta''" "''be-ta''"] a
  have "VALID_WORD_PATTERN_fullmatch ''be-ta'' \<noteq> None" by blast
  with a b show ?thesis by blast
qed




section \<open>Runs of the command\<close>

lemma ord_char_of: "n < 256 \<Longrightarrow> ord (char_of n) = n"
  by (simp add: ord_def)

lemma isdecimal_digit: "n < 10 \<Longrightarrow> isdecimal (digit n)"
  by (simp add: isdecimal_def digit_def ord_char_of)

lemma dec_digits: "\<forall>c \<in> set (dec n). isdecimal c"
proof (induction n rule: dec.induct)
  case (1 n)
  show ?case
  proof (cases "n < 10")
    case True
    then show ?thesis by (simp add: dec.simps [of n] isdecimal_digit)
  next
    case False
    with "1" show ?thesis by (simp add: dec.simps [of n] isdecimal_digit)
  qed
qed

lemma length_format_02: "2 \<le> length (format_02 n)"
  by (simp add: format_02_def)

lemma format_02_digits: "\<forall>c \<in> set (format_02 n). isdecimal c"
proof -
  have "isdecimal (CHR ''0'')" by (simp add: isdecimal_def ord_def)
  with dec_digits [of n] show ?thesis by (auto simp: format_02_def)
qed

lemma isdecimal_not_newline: "isdecimal c \<Longrightarrow> c \<noteq> CHR ''\<newline>''"
  by (auto simp: isdecimal_def ord_newline)

lemma valid_word_char:
  assumes "isword c \<or> c = CHR ''-''"
  shows "c \<noteq> CHR 0x27" "c \<noteq> CHR 0x22" "c \<noteq> CHR 0x5C" "ord c \<noteq> 9" "ord c \<noteq> 10" "ord c \<noteq> 13"
    "isprintable c" "c \<noteq> CHR ''\<newline>''"
proof -
  have o: "ord (CHR 0x27) = 39" "ord (CHR 0x22) = 34" "ord (CHR 0x5C) = 92"
    by (simp_all add: ord_def)
  from assms have r: "ord c = 45 \<or> 48 \<le> ord c \<and> ord c \<le> 57 \<or> 65 \<le> ord c \<and> ord c \<le> 90
      \<or> ord c = 95 \<or> 97 \<le> ord c \<and> ord c \<le> 122 \<or> 170 \<le> ord c"
    by (auto simp: isword_def ord_hyphen)
  from r o show "c \<noteq> CHR 0x27" "c \<noteq> CHR 0x22" "c \<noteq> CHR 0x5C" by auto
  from r show "ord c \<noteq> 9" "ord c \<noteq> 10" "ord c \<noteq> 13" by auto
  from assms show "isprintable c" by (auto simp: isword_def isprintable_def ord_hyphen)
  from r ord_newline show "c \<noteq> CHR ''\<newline>''" by auto
qed

lemma repr_char_valid: "isword c \<or> c = CHR ''-'' \<Longrightarrow> repr_char (CHR 0x27) c = [c]"
  by (simp add: repr_char_def valid_word_char)

lemma repr_valid_word:
  assumes "valid_word w"
  shows "repr w = [CHR 0x27] @ w @ [CHR 0x27]"
proof -
  from assms have c: "\<forall>c \<in> set w. isword c \<or> c = CHR ''-''" by (simp add: valid_word_def)
  then have "CHR 0x27 \<notin> set w" using valid_word_char(1) by blast
  moreover have "concat (map (repr_char (CHR 0x27)) w) = w"
  proof -
    from c have m: "map (repr_char (CHR 0x27)) w = map (\<lambda>c. [c]) w"
      by (simp add: repr_char_valid)
    have "concat (map (\<lambda>c. [c]) w) = w" by (induction w) simp_all
    then show ?thesis unfolding m .
  qed
  ultimately show ?thesis by (simp add: repr_def Let_def)
qed

text \<open>What \<open>print(f"{i:02} picked", pick.describe(), file=sys.stderr)\<close> writes.\<close>

lemma pick_line_valid:
  "valid_word (word x) \<Longrightarrow>
   join '' '' [format_02 i @ '' picked'', describe x] @ ''\<newline>'' = pick_line i x"
  by (simp add: describe_def pick_line_def repr_valid_word)

lemma count_list_concat:
  "count_list (concat xss) c = sum_list (map (\<lambda>xs. count_list xs c) xss)"
  by (induction xss) simp_all

lemma count_list_0: "c \<notin> set xs \<Longrightarrow> count_list xs c = 0"
  by (induction xs) auto

lemma valid_word_no_newline: "valid_word w \<Longrightarrow> CHR ''\<newline>'' \<notin> set w"
  using valid_word_char(8) by (auto simp: valid_word_def)

lemma count_pick_line:
  assumes "valid_word (word x)"
  shows "count_list (pick_line i x) (CHR ''\<newline>'') = 1"
proof -
  have "CHR ''\<newline>'' \<notin> set (format_02 i)"
    using format_02_digits [of i] isdecimal_not_newline by blast
  moreover have "CHR ''\<newline>'' \<notin> set (dec (index x))"
    using dec_digits [of "index x"] isdecimal_not_newline by blast
  moreover note valid_word_no_newline [OF assms]
  ultimately show ?thesis by (simp add: pick_line_def count_list_0)
qed

lemma length_join:
  "length (join sep ws) = sum_list (map length ws) + length sep * (length ws - 1)"
  by (induction sep ws rule: join.induct) simp_all

lemma count_list_join:
  "count_list (join sep ws) c
     = sum_list (map (\<lambda>w. count_list w c) ws) + count_list sep c * (length ws - 1)"
  by (induction sep ws rule: join.induct) simp_all


lemma choice_nonempty: "seq \<noteq> [] \<Longrightarrow> choice r seq = Inr (seq ! (r mod length seq))"
  by (simp add: choice_def)

lemma choice_empty: "choice r [] = Inl IndexError"
  by (simp add: choice_def)

lemma picked_mem: "wl \<noteq> [] \<Longrightarrow> picked wl rnd i \<in> set wl"
  by (simp add: picked_def)

text \<open>The loop of the draws over a wordlist that is not empty.\<close>

lemma pick_loop_nonempty:
  assumes "wl \<noteq> []"
  shows "pick_loop q wl rnd is res s =
    (s\<lparr>stderr := stderr s @ (if q then [] else
          concat (map (\<lambda>i. join '' '' [format_02 i @ '' picked'', describe (picked wl rnd i)]
                     @ ''\<newline>'') is))\<rparr>,
     Inr (res @ map (\<lambda>i. word (picked wl rnd i)) is))"
proof (induction "is" arbitrary: res s)
  case Nil
  then show ?case by simp
next
  case (Cons i rest)
  from assms have c: "choice (rnd i) wl = Inr (picked wl rnd i)"
    by (simp add: choice_nonempty picked_def)
  show ?case
  proof (cases q)
    case True
    with c Cons.IH [of "res @ [word (picked wl rnd i)]" s] show ?thesis by simp
  next
    case False
    let ?s = "print_stderr [format_02 i @ '' picked'', describe (picked wl rnd i)] s"
    from False c Cons.IH [of "res @ [word (picked wl rnd i)]" ?s] show ?thesis
      by (simp add: print_stderr_def)
  qed
qed

lemma pick_loop_empty: "pick_loop q [] rnd (i # rest) res s = (s, Inl IndexError)"
  by (simp add: choice_empty)

lemma upt_nat_Cons: "1 \<le> k \<Longrightarrow> [0..<nat k] = 0 # [1..<nat k]"
  by (simp add: upt_conv_Cons)

text \<open>What \<open>click\<close> has checked when it calls the command.\<close>

lemma rejected_params_Nil:
  "rejected_params fs opts = [] \<longleftrightarrow>
     Choice_accepts (wordlist_format_name opts) \<and> Path_accepts fs (wordlist_path opts)
     \<and> IntRange_accepts (word_count opts)"
  by (simp add: rejected_params_def)

lemma Choice_accepts_format:
  "Choice_accepts name \<Longrightarrow> \<exists>fmt. WordlistFormat_of_value name = Inr fmt \<and> value_of fmt = name"
  by (auto simp: Choice_accepts_def WordlistFormat_of_value_def)

lemma Path_accepts_open:
  "Path_accepts fs p \<Longrightarrow> \<exists>ls. map_of fs p = Some (RegularFile True ls) \<and> open_file fs p = Inr ls"
  by (auto simp: Path_accepts_def open_file_def split: option.splits node.splits)

lemma open_file_Inr: "map_of fs p = Some (RegularFile True ls) \<Longrightarrow> open_file fs p = Inr ls"
  by (simp add: open_file_def)


lemma generate_passphrase_join_char:
  "length (join_char opts) \<noteq> 1 \<Longrightarrow>
   generate_passphrase fs rnd opts
     = (\<lparr>stdout = [], stderr = [], opened = []\<rparr>, Inl (JoinCharException (join_char opts)))"
  by (simp add: generate_passphrase_def)

lemma generate_passphrase_parse_error:
  assumes "length (join_char opts) = 1"
    and "WordlistFormat_of_value (wordlist_format_name opts) = Inr fmt"
    and "open_file fs (wordlist_path opts) = Inr ls"
    and "parse fmt ls (wordlist_path opts) = Inl e"
  shows "generate_passphrase fs rnd opts
     = (\<lparr>stdout = [], stderr = [], opened = [wordlist_path opts]\<rparr>, Inl e)"
  using assms by (simp add: generate_passphrase_def)

lemma generate_passphrase_empty:
  assumes "length (join_char opts) = 1"
    and "WordlistFormat_of_value (wordlist_format_name opts) = Inr fmt"
    and "open_file fs (wordlist_path opts) = Inr ls"
    and "parse fmt ls (wordlist_path opts) = Inr []"
    and "1 \<le> word_count opts"
  shows "generate_passphrase fs rnd opts
     = (\<lparr>stdout = [], stderr = [], opened = [wordlist_path opts]\<rparr>, Inl IndexError)"
proof -
  have "pick_loop (quiet opts) [] rnd [0..<nat (word_count opts)] [] s = (s, Inl IndexError)" for s
    unfolding upt_nat_Cons [OF assms(5)] by (rule pick_loop_empty)
  with assms(1-4) show ?thesis
    by (simp add: generate_passphrase_def)
qed

lemma generate_passphrase_success:
  assumes "length (join_char opts) = 1"
    and "WordlistFormat_of_value (wordlist_format_name opts) = Inr fmt"
    and "open_file fs (wordlist_path opts) = Inr ls"
    and "parse fmt ls (wordlist_path opts) = Inr wl"
    and "wl \<noteq> []"
    and "1 \<le> word_count opts"
  shows "generate_passphrase fs rnd opts
     = (\<lparr>stdout = join (join_char opts) (drawn wl rnd (nat (word_count opts))) @ ''\<newline>'',
         stderr = (if quiet opts then []
                   else concat (pick_lines wl rnd (nat (word_count opts))) @ ''\<newline>''),
         opened = [wordlist_path opts]\<rparr>, Inr ())"
proof -
  let ?k = "nat (word_count opts)"
  let ?raw = "\<lambda>i. join '' '' [format_02 i @ '' picked'', describe (picked wl rnd i)] @ ''\<newline>''"
  have v: "valid_word (word (picked wl rnd i))" for i
    using parse_valid_words [OF assms(4)] picked_mem [OF assms(5)] by blast
  have raw: "?raw = (\<lambda>i. pick_line i (picked wl rnd i))"
    by (rule ext) (rule pick_line_valid, rule v)
  have loop: "pick_loop (quiet opts) wl rnd [0..<?k] [] s =
      (s\<lparr>stderr := stderr s @ (if quiet opts then [] else concat (pick_lines wl rnd ?k))\<rparr>,
       Inr (drawn wl rnd ?k))" for s
    unfolding pick_loop_nonempty [OF assms(5)] raw drawn_def pick_lines_def by simp
  have len: "int (length (drawn wl rnd ?k)) = word_count opts"
    using assms(6) by (simp add: drawn_def)
  from assms(1-3) assms(4) assms(6) loop len show ?thesis
    by (simp add: generate_passphrase_def print_stderr_def print_stdout_def)
qed


lemma first_rejected_None: "rejected_params fs opts = [] \<Longrightarrow> first_rejected fs opts = None"
  by (simp add: first_rejected_def find_None_iff)

lemma first_rejected_Some:
  assumes "rejected_params fs opts \<noteq> []"
  shows "\<exists>p \<in> set (rejected_params fs opts). first_rejected fs opts = Some p"
proof -
  from assms obtain q where q: "q \<in> set (rejected_params fs opts)"
    by (cases "rejected_params fs opts") auto
  have "q \<in> set (given_order opts @ [WORDLIST_FORMAT, WORDLIST, COUNT])"
    by (cases q) simp_all
  with q have "first_rejected fs opts \<noteq> None"
    by (auto simp: first_rejected_def find_None_iff)
  then obtain p where p: "first_rejected fs opts = Some p" by auto
  then have "p \<in> set (rejected_params fs opts)"
    by (auto simp: first_rejected_def find_Some_iff)
  with p show ?thesis by blast
qed

lemma main_accepted: "rejected_params fs opts = [] \<Longrightarrow> main fs rnd opts = generate_passphrase fs rnd opts"
  by (simp add: main_def first_rejected_None)

lemma main_rejected:
  assumes "rejected_params fs opts \<noteq> []"
  shows "\<exists>p \<in> set (rejected_params fs opts).
     main fs rnd opts = (\<lparr>stdout = [], stderr = [], opened = []\<rparr>, Inl (BadParameter p))"
  using first_rejected_Some [OF assms] by (auto simp: main_def)

text \<open>
  With two rejected options the usage error is for the one that the command line gives
  first: here the count, not the path.
\<close>

lemma main_first_in_order:
  "main [] always_first
     \<lparr>wordlist_format_name = ''plain'', wordlist_path = ''missing.txt'', word_count = 0,
      quiet = False, join_char = '' '', given_order = [COUNT, WORDLIST, WORDLIST_FORMAT]\<rparr>
   = (\<lparr>stdout = [], stderr = [], opened = []\<rparr>, Inl (BadParameter COUNT))"
  by code_simp

text \<open>What a run that returns has done.\<close>

lemma main_success_cases:
  assumes "main fs rnd opts = (s, Inr ())"
  obtains fmt ls wl where
    "value_of fmt = wordlist_format_name opts"
    "map_of fs (wordlist_path opts) = Some (RegularFile True ls)"
    "parse fmt ls (wordlist_path opts) = Inr wl" "wl \<noteq> []"
    "1 \<le> word_count opts" "length (join_char opts) = 1"
    "s = \<lparr>stdout = join (join_char opts) (drawn wl rnd (nat (word_count opts))) @ ''\<newline>'',
          stderr = (if quiet opts then []
                    else concat (pick_lines wl rnd (nat (word_count opts))) @ ''\<newline>''),
          opened = [wordlist_path opts]\<rparr>"
proof -
  have rej: "rejected_params fs opts = []"
  proof (rule ccontr)
    assume "rejected_params fs opts \<noteq> []"
    from main_rejected [OF this, of rnd] assms show False by auto
  qed
  with assms have gp: "generate_passphrase fs rnd opts = (s, Inr ())"
    by (simp add: main_accepted)
  have jc: "length (join_char opts) = 1"
  proof (rule ccontr)
    assume "length (join_char opts) \<noteq> 1"
    from generate_passphrase_join_char [OF this, of fs rnd] gp show False by simp
  qed
  from rej have k: "1 \<le> word_count opts"
    by (simp add: rejected_params_Nil IntRange_accepts_def)
  from rej obtain fmt where fmt: "WordlistFormat_of_value (wordlist_format_name opts) = Inr fmt"
    and name: "value_of fmt = wordlist_format_name opts"
    using Choice_accepts_format by (auto simp: rejected_params_Nil)
  from rej obtain ls where fl: "map_of fs (wordlist_path opts) = Some (RegularFile True ls)"
    and opn: "open_file fs (wordlist_path opts) = Inr ls"
    using Path_accepts_open by (auto simp: rejected_params_Nil)
  show thesis
  proof (cases "parse fmt ls (wordlist_path opts)")
    case (Inl e)
    from generate_passphrase_parse_error [OF jc fmt opn Inl, of rnd] gp show thesis by simp
  next
    case (Inr wl)
    show thesis
    proof (cases "wl = []")
      case True
      with Inr have "parse fmt ls (wordlist_path opts) = Inr []" by simp
      from generate_passphrase_empty [OF jc fmt opn this k, of rnd] gp show thesis by simp
    next
      case False
      from generate_passphrase_success [OF jc fmt opn Inr False k, of rnd] gp
      have "s = \<lparr>stdout = join (join_char opts) (drawn wl rnd (nat (word_count opts))) @ ''\<newline>'',
          stderr = (if quiet opts then []
                    else concat (pick_lines wl rnd (nat (word_count opts))) @ ''\<newline>''),
          opened = [wordlist_path opts]\<rparr>"
        by simp
      with name fl Inr False k jc show thesis by (rule that)
    qed
  qed
qed

lemma length_drawn: "length (drawn wl rnd k) = k"
  by (simp add: drawn_def)

lemma set_drawn: "wl \<noteq> [] \<Longrightarrow> set (drawn wl rnd k) \<subseteq> word ` set wl"
  by (auto simp: drawn_def picked_mem)

lemma length_pick_lines: "length (pick_lines wl rnd k) = k"
  by (simp add: pick_lines_def)

lemma sum_list_const: "\<forall>x \<in> set xs. f x = (c::nat) \<Longrightarrow> sum_list (map f xs) = c * length xs"
  by (induction xs) simp_all

lemma count_pick_lines:
  assumes "wl \<noteq> []" "\<forall>y \<in> set wl. valid_word (word y)"
  shows "\<forall>l \<in> set (pick_lines wl rnd k). count_list l (CHR ''\<newline>'') = 1"
  using assms by (auto simp: pick_lines_def picked_mem count_pick_line)

lemma count_drawn:
  assumes "wl \<noteq> []" "\<forall>y \<in> set wl. valid_word (word y)" "\<not> (isword j \<or> j = CHR ''-'')"
  shows "sum_list (map (\<lambda>w. count_list w j) (drawn wl rnd k)) = 0"
proof -
  have "count_list w j = 0" if "w \<in> set (drawn wl rnd k)" for w
  proof -
    from that set_drawn [OF assms(1)] assms(2) have "valid_word w" by auto
    with assms(3) have "j \<notin> set w" by (auto simp: valid_word_def)
    then show ?thesis by (rule count_list_0)
  qed
  then show ?thesis by (simp add: sum_list_const [where c = 0])
qed




section \<open>The claims about the command\<close>

text \<open>
  C1, as stated, fails: with a join text of two characters and a wordlist path that names
  nothing, the error is the usage error of \<open>click\<close> for \<open>--wordlist\<close>, raised by the
  conversion \<open>click.Path(exists=True, ...)\<close> before the body of the command runs, and not
  the exception for the join text.
\<close>

theorem join_char_counterexample:
  "length ''ab'' \<noteq> 1
   \<and> map_of [] ''missing.txt'' = (None :: node option)
   \<and> main [] always_first
        \<lparr>wordlist_format_name = ''plain'', wordlist_path = ''missing.txt'', word_count = 4,
         quiet = False, join_char = ''ab'', given_order = [WORDLIST_FORMAT, WORDLIST, COUNT]\<rparr>
       = (\<lparr>stdout = [], stderr = [], opened = []\<rparr>, Inl (BadParameter WORDLIST))
   \<and> main [] always_first
        \<lparr>wordlist_format_name = ''plain'', wordlist_path = ''missing.txt'', word_count = 4,
         quiet = False, join_char = ''ab'', given_order = [WORDLIST_FORMAT, WORDLIST, COUNT]\<rparr>
       \<noteq> (\<lparr>stdout = [], stderr = [], opened = []\<rparr>, Inl (JoinCharException ''ab''))"
proof -
  have "main [] always_first
        \<lparr>wordlist_format_name = ''plain'', wordlist_path = ''missing.txt'', word_count = 4,
         quiet = False, join_char = ''ab'', given_order = [WORDLIST_FORMAT, WORDLIST, COUNT]\<rparr>
       = (\<lparr>stdout = [], stderr = [], opened = []\<rparr>, Inl (BadParameter WORDLIST))"
    by code_simp
  then show ?thesis by simp
qed

text \<open>
  C1, amended. When the join text is not exactly one character, the body of the command
  raises the exception for the join text as its first step, whatever the file system is,
  with no file opened and nothing printed. So every invocation whose other options
  \<open>click\<close> accepts (a format name among the choices, a wordlist path that names a
  readable regular file, a count of at least 1) fails with that exception before the
  wordlist is opened. An invocation whose wordlist path \<open>click\<close> does not accept fails
  with the usage error of \<open>click\<close> for one of the options it rejects, never with the
  exception for the join text; when the format name and the count are accepted, that
  usage error is the one for \<open>--wordlist\<close>.
\<close>

theorem join_char_checked_first:
  assumes "length (join_char opts) \<noteq> 1"
  shows "generate_passphrase fs rnd opts
       = (\<lparr>stdout = [], stderr = [], opened = []\<rparr>, Inl (JoinCharException (join_char opts)))
     \<and> (rejected_params fs opts = [] \<longrightarrow>
          main fs rnd opts
            = (\<lparr>stdout = [], stderr = [], opened = []\<rparr>, Inl (JoinCharException (join_char opts))))
     \<and> (\<not> Path_accepts fs (wordlist_path opts) \<longrightarrow>
          (\<exists>p. main fs rnd opts = (\<lparr>stdout = [], stderr = [], opened = []\<rparr>, Inl (BadParameter p))
             \<and> p \<in> set (rejected_params fs opts)))
     \<and> (\<not> Path_accepts fs (wordlist_path opts) \<and> Choice_accepts (wordlist_format_name opts)
          \<and> IntRange_accepts (word_count opts) \<longrightarrow>
          main fs rnd opts
            = (\<lparr>stdout = [], stderr = [], opened = []\<rparr>, Inl (BadParameter WORDLIST)))"
proof (intro conjI impI)
  show gp: "generate_passphrase fs rnd opts
       = (\<lparr>stdout = [], stderr = [], opened = []\<rparr>, Inl (JoinCharException (join_char opts)))"
    using assms by (rule generate_passphrase_join_char)
  show "main fs rnd opts
       = (\<lparr>stdout = [], stderr = [], opened = []\<rparr>, Inl (JoinCharException (join_char opts)))"
    if "rejected_params fs opts = []"
    using that gp by (simp add: main_accepted)
  show "\<exists>p. main fs rnd opts = (\<lparr>stdout = [], stderr = [], opened = []\<rparr>, Inl (BadParameter p))
             \<and> p \<in> set (rejected_params fs opts)"
    if "\<not> Path_accepts fs (wordlist_path opts)"
  proof -
    from that have "rejected_params fs opts \<noteq> []"
      by (simp add: rejected_params_def)
    from main_rejected [OF this, of rnd] show ?thesis by blast
  qed
  show "main fs rnd opts = (\<lparr>stdout = [], stderr = [], opened = []\<rparr>, Inl (BadParameter WORDLIST))"
    if "\<not> Path_accepts fs (wordlist_path opts) \<and> Choice_accepts (wordlist_format_name opts)
          \<and> IntRange_accepts (word_count opts)"
  proof -
    from that have only: "rejected_params fs opts = [WORDLIST]"
      by (simp add: rejected_params_def)
    then have "rejected_params fs opts \<noteq> []" by simp
    from main_rejected [OF this, of rnd] only show ?thesis by simp
  qed
qed

theorem join_char_checked_first_witness:
  "length ''ab'' \<noteq> 1
   \<and> rejected_params [(''words.txt'', RegularFile True [''alpha\<newline>''])]
        \<lparr>wordlist_format_name = ''plain'', wordlist_path = ''words.txt'', word_count = 4,
         quiet = False, join_char = ''ab'', given_order = [COUNT, WORDLIST, WORDLIST_FORMAT]\<rparr> = []
   \<and> main [(''words.txt'', RegularFile True [''alpha\<newline>''])] always_first
        \<lparr>wordlist_format_name = ''plain'', wordlist_path = ''words.txt'', word_count = 4,
         quiet = False, join_char = ''ab'', given_order = [COUNT, WORDLIST, WORDLIST_FORMAT]\<rparr>
       = (\<lparr>stdout = [], stderr = [], opened = []\<rparr>, Inl (JoinCharException ''ab''))
   \<and> \<not> Path_accepts [(''words.txt'', RegularFile True [''alpha\<newline>''])] ''missing.txt''
   \<and> Choice_accepts ''plain'' \<and> IntRange_accepts 4
   \<and> main [(''words.txt'', RegularFile True [''alpha\<newline>''])] always_first
        \<lparr>wordlist_format_name = ''plain'', wordlist_path = ''missing.txt'', word_count = 4,
         quiet = False, join_char = ''ab'', given_order = [COUNT, WORDLIST, WORDLIST_FORMAT]\<rparr>
       = (\<lparr>stdout = [], stderr = [], opened = []\<rparr>, Inl (BadParameter WORDLIST))"
proof -
  let ?fs = "[(''words.txt'', RegularFile True [''alpha\<newline>''])]"
  let ?opts = "\<lparr>wordlist_format_name = ''plain'', wordlist_path = ''words.txt'', word_count = 4,
         quiet = False, join_char = ''ab'', given_order = [COUNT, WORDLIST, WORDLIST_FORMAT]\<rparr>"
  let ?miss = "\<lparr>wordlist_format_name = ''plain'', wordlist_path = ''missing.txt'', word_count = 4,
         quiet = False, join_char = ''ab'', given_order = [COUNT, WORDLIST, WORDLIST_FORMAT]\<rparr>"
  have a: "length (join_char ?opts) \<noteq> 1" by simp
  have a': "length (join_char ?miss) \<noteq> 1" by simp
  have b: "rejected_params ?fs ?opts = []" by code_simp
  have c: "\<not> Path_accepts ?fs ''missing.txt''" by code_simp
  have d: "Choice_accepts ''plain''" by code_simp
  have e: "IntRange_accepts 4" by code_simp
  from join_char_checked_first [OF a, of ?fs always_first] b
  have 1: "main ?fs always_first ?opts
       = (\<lparr>stdout = [], stderr = [], opened = []\<rparr>, Inl (JoinCharException ''ab''))"
    by simp
  from join_char_checked_first [OF a', of ?fs always_first] c d e
  have 2: "main ?fs always_first ?miss
       = (\<lparr>stdout = [], stderr = [], opened = []\<rparr>, Inl (BadParameter WORDLIST))"
    by simp
  from b 1 c d e 2 show ?thesis by simp
qed

text \<open>
  C7. For a file whose lines are all blank (an empty file among them), \<open>parse\<close> returns the
  empty list under every format and raises nothing. A run of the command on such a file,
  with options that are accepted, then fails with the \<open>IndexError\<close> of \<open>secrets.choice\<close>
  at the first draw: the file has been opened and nothing has been printed.
\<close>

theorem empty_wordlist_fails_at_first_draw:
  assumes "\<forall>l \<in> set ls. is_blank l"
  shows "parse fmt ls fp = Inr []
     \<and> (rejected_params fs opts = [] \<and> length (join_char opts) = 1
          \<and> map_of fs (wordlist_path opts) = Some (RegularFile True ls) \<longrightarrow>
        main fs rnd opts
          = (\<lparr>stdout = [], stderr = [], opened = [wordlist_path opts]\<rparr>, Inl IndexError))"
proof -
  have p: "parse fmt ls fp = Inr []" for fmt fp
  proof -
    from assms have "filter (\<lambda>l. \<not> is_blank l) ls = []" by (simp add: filter_empty_conv)
    then have "words_of fmt ls = []" by (simp add: words_of_def)
    moreover from assms have "\<forall>l \<in> set ls. is_blank l \<or> accepted fmt l \<noteq> None" by simp
    ultimately show ?thesis using parse_ok [of ls fmt fp] by simp
  qed
  have "main fs rnd opts
          = (\<lparr>stdout = [], stderr = [], opened = [wordlist_path opts]\<rparr>, Inl IndexError)"
    if rej: "rejected_params fs opts = []" and jc: "length (join_char opts) = 1"
      and fl: "map_of fs (wordlist_path opts) = Some (RegularFile True ls)"
  proof -
    from rej obtain fmt' where fmt: "WordlistFormat_of_value (wordlist_format_name opts) = Inr fmt'"
      using Choice_accepts_format by (auto simp: rejected_params_Nil)
    from rej have k: "1 \<le> word_count opts"
      by (simp add: rejected_params_Nil IntRange_accepts_def)
    from fl have opn: "open_file fs (wordlist_path opts) = Inr ls" by (rule open_file_Inr)
    from generate_passphrase_empty [OF jc fmt opn p k, of rnd] rej show ?thesis
      by (simp add: main_accepted)
  qed
  with p show ?thesis by blast
qed

theorem empty_wordlist_fails_at_first_draw_witness:
  "list_all is_blank [''\<newline>'', ''  \<newline>'', '''']
   \<and> parse DICELIST_EFF [''\<newline>'', ''  \<newline>'', ''''] ''empty.txt'' = Inr []
   \<and> rejected_params [(''empty.txt'', RegularFile True [''\<newline>'', ''  \<newline>'', ''''])]
        \<lparr>wordlist_format_name = ''dicelist-eff'', wordlist_path = ''empty.txt'', word_count = 3,
         quiet = False, join_char = '' '', given_order = [WORDLIST_FORMAT, WORDLIST, COUNT]\<rparr> = []
   \<and> main [(''empty.txt'', RegularFile True [''\<newline>'', ''  \<newline>'', ''''])] round_robin
        \<lparr>wordlist_format_name = ''dicelist-eff'', wordlist_path = ''empty.txt'', word_count = 3,
         quiet = False, join_char = '' '', given_order = [WORDLIST_FORMAT, WORDLIST, COUNT]\<rparr>
       = (\<lparr>stdout = [], stderr = [], opened = [''empty.txt'']\<rparr>, Inl IndexError)"
proof -
  let ?ls = "[''\<newline>'', ''  \<newline>'', '''']"
  let ?fs = "[(''empty.txt'', RegularFile True ?ls)]"
  let ?opts = "\<lparr>wordlist_format_name = ''dicelist-eff'', wordlist_path = ''empty.txt'',
         word_count = 3, quiet = False, join_char = '' '', given_order = [WORDLIST_FORMAT, WORDLIST, COUNT]\<rparr>"
  have a: "list_all is_blank ?ls" by code_simp
  then have a': "\<forall>l \<in> set ?ls. is_blank l" by (simp only: list_all_iff)
  have b: "rejected_params ?fs ?opts = []" by code_simp
  have c: "length (join_char ?opts) = 1" by simp
  have d: "map_of ?fs (wordlist_path ?opts) = Some (RegularFile True ?ls)" by simp
  from empty_wordlist_fails_at_first_draw [OF a', of DICELIST_EFF "''empty.txt''" ?fs ?opts round_robin]
    a b c d
  show ?thesis by simp
qed




text \<open>
  C3, as stated, fails twice. The join character may occur in a word: with the one word
  \<open>be-ta\<close>, the join character \<open>-\<close> and a count of 1, the output has one occurrence of the
  join character, not \<open>K - 1 = 0\<close>. And the join character may be the line feed: then the
  output of a run with a count of 3 is three lines, not a single one.
\<close>

theorem passphrase_structure_counterexample:
  "main [(''words.txt'', RegularFile True [''be-ta\<newline>''])] always_first
      \<lparr>wordlist_format_name = ''plain'', wordlist_path = ''words.txt'', word_count = 1,
       quiet = True, join_char = ''-'', given_order = [WORDLIST_FORMAT, WORDLIST, COUNT]\<rparr>
     = (\<lparr>stdout = ''be-ta\<newline>'', stderr = [], opened = [''words.txt'']\<rparr>, Inr ())
   \<and> count_list ''be-ta\<newline>'' (CHR ''-'') = 1
   \<and> main [(''words.txt'', RegularFile True [''alpha\<newline>'', ''beta\<newline>'', ''gamma\<newline>''])] round_robin
      \<lparr>wordlist_format_name = ''plain'', wordlist_path = ''words.txt'', word_count = 3,
       quiet = True, join_char = ''\<newline>'', given_order = [WORDLIST_FORMAT, WORDLIST, COUNT]\<rparr>
     = (\<lparr>stdout = ''alpha\<newline>beta\<newline>gamma\<newline>'', stderr = [], opened = [''words.txt'']\<rparr>, Inr ())
   \<and> count_list ''alpha\<newline>beta\<newline>gamma\<newline>'' (CHR ''\<newline>'') = 3"
proof -
  have "main [(''words.txt'', RegularFile True [''be-ta\<newline>''])] always_first
      \<lparr>wordlist_format_name = ''plain'', wordlist_path = ''words.txt'', word_count = 1,
       quiet = True, join_char = ''-'', given_order = [WORDLIST_FORMAT, WORDLIST, COUNT]\<rparr>
     = (\<lparr>stdout = ''be-ta\<newline>'', stderr = [], opened = [''words.txt'']\<rparr>, Inr ())"
    by code_simp
  moreover have "main [(''words.txt'', RegularFile True [''alpha\<newline>'', ''beta\<newline>'', ''gamma\<newline>''])] round_robin
      \<lparr>wordlist_format_name = ''plain'', wordlist_path = ''words.txt'', word_count = 3,
       quiet = True, join_char = ''\<newline>'', given_order = [WORDLIST_FORMAT, WORDLIST, COUNT]\<rparr>
     = (\<lparr>stdout = ''alpha\<newline>beta\<newline>gamma\<newline>'', stderr = [], opened = [''words.txt'']\<rparr>, Inr ())"
    by code_simp
  moreover have "count_list ''be-ta\<newline>'' (CHR ''-'') = 1" by simp
  moreover have "count_list ''alpha\<newline>beta\<newline>gamma\<newline>'' (CHR ''\<newline>'') = 3" by simp
  ultimately show ?thesis by blast
qed

text \<open>
  C3, amended. A run that returns has parsed the file into a wordlist that is not empty,
  has a count \<open>K\<close> of at least 1 and a join text of one character \<open>j\<close>. The text it prints
  to \<open>sys.stdout\<close> is \<open>K\<close> word texts, the ones of the draws in their order, each the text
  of a word of the wordlist, with \<open>j\<close> put between each two, \<open>K - 1\<close> times: its length is
  the lengths of the words and \<open>K - 1\<close> more. The occurrences of \<open>j\<close> in it are these
  \<open>K - 1\<close> and the ones inside the words, so exactly \<open>K - 1\<close> when \<open>j\<close> is neither a word
  character nor the hyphen. The output is one line unless \<open>j\<close> is the line feed, and \<open>K\<close>
  lines when it is.
\<close>

theorem passphrase_structure:
  assumes "main fs rnd opts = (s, Inr ())"
  shows "\<exists>fmt ls wl ws j.
       value_of fmt = wordlist_format_name opts
     \<and> map_of fs (wordlist_path opts) = Some (RegularFile True ls)
     \<and> parse fmt ls (wordlist_path opts) = Inr wl \<and> wl \<noteq> [] \<and> 1 \<le> word_count opts
     \<and> join_char opts = [j]
     \<and> ws = drawn wl rnd (nat (word_count opts))
     \<and> length ws = nat (word_count opts)
     \<and> set ws \<subseteq> word ` set wl
     \<and> stdout s = join [j] ws @ ''\<newline>''
     \<and> length (join [j] ws) = sum_list (map length ws) + (nat (word_count opts) - 1)
     \<and> count_list (join [j] ws) j
         = sum_list (map (\<lambda>w. count_list w j) ws) + (nat (word_count opts) - 1)
     \<and> (\<not> (isword j \<or> j = CHR ''-'') \<longrightarrow>
          count_list (join [j] ws) j = nat (word_count opts) - 1)
     \<and> count_list (stdout s) (CHR ''\<newline>'')
         = (if j = CHR ''\<newline>'' then nat (word_count opts) else 1)"
proof -
  from assms obtain fmt ls wl where
    name: "value_of fmt = wordlist_format_name opts" and
    fl: "map_of fs (wordlist_path opts) = Some (RegularFile True ls)" and
    p: "parse fmt ls (wordlist_path opts) = Inr wl" and ne: "wl \<noteq> []" and
    k: "1 \<le> word_count opts" and jc: "length (join_char opts) = 1" and
    s: "s = \<lparr>stdout = join (join_char opts) (drawn wl rnd (nat (word_count opts))) @ ''\<newline>'',
          stderr = (if quiet opts then []
                    else concat (pick_lines wl rnd (nat (word_count opts))) @ ''\<newline>''),
          opened = [wordlist_path opts]\<rparr>"
    by (rule main_success_cases)
  let ?k = "nat (word_count opts)"
  let ?ws = "drawn wl rnd ?k"
  let ?nl = "CHR ''\<newline>''"
  from k have k1: "1 \<le> ?k" by simp
  note valid = parse_valid_words [OF p]
  from jc obtain j where j: "join_char opts = [j]"
    by (cases "join_char opts") auto
  have len: "length ?ws = ?k" by (rule length_drawn)
  have sub: "set ?ws \<subseteq> word ` set wl" using ne by (rule set_drawn)
  from s j have out: "stdout s = join [j] ?ws @ ''\<newline>''" by simp
  have l: "length (join [j] ?ws) = sum_list (map length ?ws) + (?k - 1)"
    by (simp add: length_join len)
  have occ: "count_list (join [j] ?ws) j = sum_list (map (\<lambda>w. count_list w j) ?ws) + (?k - 1)"
    by (simp add: count_list_join len)
  have c: "count_list (join [j] ?ws) j = ?k - 1" if "\<not> (isword j \<or> j = CHR ''-'')"
    using count_drawn [OF ne valid that, of rnd ?k] occ by simp
  have words: "sum_list (map (\<lambda>w. count_list w ?nl) ?ws) = 0"
  proof (rule count_drawn [OF ne valid])
    show "\<not> (isword ?nl \<or> ?nl = CHR ''-'')"
      using valid_word_char(8) [of ?nl] by blast
  qed
  have "count_list (join [j] ?ws) ?nl = (if j = ?nl then ?k - 1 else 0)"
    by (simp add: count_list_join words len)
  with out k1 have lines: "count_list (stdout s) ?nl = (if j = ?nl then ?k else 1)"
    by simp
  from name fl p ne k j len sub out l occ c lines show ?thesis by blast
qed

theorem passphrase_structure_witness:
  "main [(''words.txt'', RegularFile True [''alpha\<newline>'', ''beta\<newline>'', ''gamma\<newline>''])] round_robin
      \<lparr>wordlist_format_name = ''plain'', wordlist_path = ''words.txt'', word_count = 4,
       quiet = True, join_char = ''-'', given_order = [WORDLIST_FORMAT, WORDLIST, COUNT]\<rparr>
     = (\<lparr>stdout = ''alpha-beta-gamma-alpha\<newline>'', stderr = [], opened = [''words.txt'']\<rparr>, Inr ())
   \<and> (\<exists>ws. length ws = 4 \<and> ''alpha-beta-gamma-alpha\<newline>'' = join ''-'' ws @ ''\<newline>'')
   \<and> count_list ''alpha-beta-gamma-alpha\<newline>'' (CHR ''\<newline>'') = 1"
proof -
  let ?fs = "[(''words.txt'', RegularFile True [''alpha\<newline>'', ''beta\<newline>'', ''gamma\<newline>''])]"
  let ?opts = "\<lparr>wordlist_format_name = ''plain'', wordlist_path = ''words.txt'', word_count = 4,
       quiet = True, join_char = ''-'', given_order = [WORDLIST_FORMAT, WORDLIST, COUNT]\<rparr>"
  let ?s = "\<lparr>stdout = ''alpha-beta-gamma-alpha\<newline>'', stderr = [], opened = [''words.txt'']\<rparr>"
  have run: "main ?fs round_robin ?opts = (?s, Inr ())" by code_simp
  from passphrase_structure [OF run] obtain ws j where
    jj: "join_char ?opts = [j]" and len: "length ws = nat (word_count ?opts)" and
    out: "stdout ?s = join [j] ws @ ''\<newline>''" and
    cnt: "count_list (stdout ?s) (CHR ''\<newline>'')
       = (if j = CHR ''\<newline>'' then nat (word_count ?opts) else 1)"
    by blast
  from jj have j: "j = CHR ''-''" by simp
  from len have 1: "length ws = 4" by simp
  from out have 2: "''alpha-beta-gamma-alpha\<newline>'' = join ''-'' ws @ ''\<newline>''"
    unfolding j by simp
  from cnt have 3: "count_list ''alpha-beta-gamma-alpha\<newline>'' (CHR ''\<newline>'') = 1"
    unfolding j by simp
  from run 1 2 3 show ?thesis by blast
qed

text \<open>
  C8, as stated, fails: the join text may be the line feed, which is one character, and
  then a quiet run with a count of 2 writes two lines to \<open>sys.stdout\<close>, not one.
\<close>

theorem streams_counterexample:
  "main [(''words.txt'', RegularFile True [''alpha\<newline>'', ''beta\<newline>''])] round_robin
      \<lparr>wordlist_format_name = ''plain'', wordlist_path = ''words.txt'', word_count = 2,
       quiet = True, join_char = ''\<newline>'', given_order = [WORDLIST_FORMAT, WORDLIST, COUNT]\<rparr>
     = (\<lparr>stdout = ''alpha\<newline>beta\<newline>'', stderr = [], opened = [''words.txt'']\<rparr>, Inr ())
   \<and> count_list ''alpha\<newline>beta\<newline>'' (CHR ''\<newline>'') = 2"
proof -
  have "main [(''words.txt'', RegularFile True [''alpha\<newline>'', ''beta\<newline>''])] round_robin
      \<lparr>wordlist_format_name = ''plain'', wordlist_path = ''words.txt'', word_count = 2,
       quiet = True, join_char = ''\<newline>'', given_order = [WORDLIST_FORMAT, WORDLIST, COUNT]\<rparr>
     = (\<lparr>stdout = ''alpha\<newline>beta\<newline>'', stderr = [], opened = [''words.txt'']\<rparr>, Inr ())"
    by code_simp
  moreover have "count_list ''alpha\<newline>beta\<newline>'' (CHR ''\<newline>'') = 2" by simp
  ultimately show ?thesis by blast
qed

text \<open>
  C8, amended. For every run that returns, with count \<open>K\<close>: when \<open>quiet\<close> is set the
  command writes nothing to \<open>sys.stderr\<close>; when it is not set the command writes there the
  \<open>K\<close> pick lines of the draws, in their order, and one empty line after them, \<open>K + 1\<close>
  lines in all. A pick line is the number of the draw filled with zeros to at least two
  digits, \<open>picked index\<close>, the index of the word, a colon and the text of the word in
  quotes. In both modes one \<open>print\<close> writes the passphrase and a line feed to
  \<open>sys.stdout\<close>: this is one line unless the join character is the line feed, and \<open>K\<close>
  lines when it is.
\<close>

theorem streams_of_a_run:
  assumes "main fs rnd opts = (s, Inr ())"
  shows "\<exists>fmt ls wl k.
       value_of fmt = wordlist_format_name opts
     \<and> map_of fs (wordlist_path opts) = Some (RegularFile True ls)
     \<and> parse fmt ls (wordlist_path opts) = Inr wl \<and> wl \<noteq> []
     \<and> int k = word_count opts \<and> 1 \<le> k
     \<and> (if quiet opts then stderr s = []
         else stderr s = concat (pick_lines wl rnd k) @ ''\<newline>''
           \<and> length (pick_lines wl rnd k) = k
           \<and> list_all (\<lambda>l. count_list l (CHR ''\<newline>'') = 1 \<and> last l = CHR ''\<newline>'')
                (pick_lines wl rnd k)
           \<and> count_list (stderr s) (CHR ''\<newline>'') = k + 1)
     \<and> (\<forall>i. 2 \<le> length (format_02 i))
     \<and> stdout s = join (join_char opts) (drawn wl rnd k) @ ''\<newline>''
     \<and> count_list (stdout s) (CHR ''\<newline>'') = (if join_char opts = ''\<newline>'' then k else 1)"
proof -
  from assms obtain fmt ls wl where
    name: "value_of fmt = wordlist_format_name opts" and
    fl: "map_of fs (wordlist_path opts) = Some (RegularFile True ls)" and
    p: "parse fmt ls (wordlist_path opts) = Inr wl" and ne: "wl \<noteq> []" and
    k: "1 \<le> word_count opts" and jc: "length (join_char opts) = 1" and
    s: "s = \<lparr>stdout = join (join_char opts) (drawn wl rnd (nat (word_count opts))) @ ''\<newline>'',
          stderr = (if quiet opts then []
                    else concat (pick_lines wl rnd (nat (word_count opts))) @ ''\<newline>''),
          opened = [wordlist_path opts]\<rparr>"
    by (rule main_success_cases)
  let ?k = "nat (word_count opts)"
  let ?nl = "CHR ''\<newline>''"
  from k have ik: "int ?k = word_count opts" and k1: "1 \<le> ?k" by simp_all
  note valid = parse_valid_words [OF p]
  have one: "\<forall>l \<in> set (pick_lines wl rnd ?k). count_list l ?nl = 1"
    using ne valid by (rule count_pick_lines)
  have lst: "\<forall>l \<in> set (pick_lines wl rnd ?k). last l = ?nl"
    by (auto simp: pick_lines_def pick_line_def)
  from one lst have each: "list_all (\<lambda>l. count_list l ?nl = 1 \<and> last l = ?nl) (pick_lines wl rnd ?k)"
    by (simp add: list_all_iff)
  have cnt: "count_list (concat (pick_lines wl rnd ?k) @ ''\<newline>'') ?nl = ?k + 1"
    using one by (simp add: count_list_concat sum_list_const [where c = 1] length_pick_lines)
  have err: "if quiet opts then stderr s = []
         else stderr s = concat (pick_lines wl rnd ?k) @ ''\<newline>''
           \<and> length (pick_lines wl rnd ?k) = ?k
           \<and> list_all (\<lambda>l. count_list l ?nl = 1 \<and> last l = ?nl) (pick_lines wl rnd ?k)
           \<and> count_list (stderr s) ?nl = ?k + 1"
    using s each cnt by (simp add: length_pick_lines)
  from s have out: "stdout s = join (join_char opts) (drawn wl rnd ?k) @ ''\<newline>''" by simp
  from jc obtain j where j: "join_char opts = [j]"
    by (cases "join_char opts") auto
  have words: "sum_list (map (\<lambda>w. count_list w ?nl) (drawn wl rnd ?k)) = 0"
  proof (rule count_drawn [OF ne valid])
    show "\<not> (isword ?nl \<or> ?nl = CHR ''-'')"
      using valid_word_char(8) [of ?nl] by blast
  qed
  have "count_list (join [j] (drawn wl rnd ?k)) ?nl = (if j = ?nl then ?k - 1 else 0)"
    by (simp add: count_list_join words length_drawn)
  with out j k1 have lines: "count_list (stdout s) ?nl = (if join_char opts = ''\<newline>'' then ?k else 1)"
    by simp
  have pad: "\<forall>i. 2 \<le> length (format_02 i)" by (simp add: length_format_02)
  from name fl p ne ik k1 err pad out lines show ?thesis by blast
qed

theorem streams_of_a_run_witness:
  "main [(''words.txt'', RegularFile True [''alpha\<newline>'', ''beta\<newline>''])] round_robin
      \<lparr>wordlist_format_name = ''plain'', wordlist_path = ''words.txt'', word_count = 2,
       quiet = False, join_char = '' '', given_order = [WORDLIST_FORMAT, WORDLIST, COUNT]\<rparr>
     = (\<lparr>stdout = ''alpha beta\<newline>'',
         stderr = ''00 picked index 0: '' @ [CHR 0x27] @ ''alpha'' @ [CHR 0x27] @ ''\<newline>''
               @ ''01 picked index 1: '' @ [CHR 0x27] @ ''beta'' @ [CHR 0x27] @ ''\<newline>'' @ ''\<newline>'',
         opened = [''words.txt'']\<rparr>, Inr ())
   \<and> count_list (''00 picked index 0: '' @ [CHR 0x27] @ ''alpha'' @ [CHR 0x27] @ ''\<newline>''
               @ ''01 picked index 1: '' @ [CHR 0x27] @ ''beta'' @ [CHR 0x27] @ ''\<newline>'' @ ''\<newline>'')
        (CHR ''\<newline>'') = 3
   \<and> count_list ''alpha beta\<newline>'' (CHR ''\<newline>'') = 1"
proof -
  let ?fs = "[(''words.txt'', RegularFile True [''alpha\<newline>'', ''beta\<newline>''])]"
  let ?opts = "\<lparr>wordlist_format_name = ''plain'', wordlist_path = ''words.txt'', word_count = 2,
       quiet = False, join_char = '' '', given_order = [WORDLIST_FORMAT, WORDLIST, COUNT]\<rparr>"
  let ?err = "''00 picked index 0: '' @ [CHR 0x27] @ ''alpha'' @ [CHR 0x27] @ ''\<newline>''
               @ ''01 picked index 1: '' @ [CHR 0x27] @ ''beta'' @ [CHR 0x27] @ ''\<newline>'' @ ''\<newline>''"
  let ?s = "\<lparr>stdout = ''alpha beta\<newline>'', stderr = ?err, opened = [''words.txt'']\<rparr>"
  have run: "main ?fs round_robin ?opts = (?s, Inr ())" by code_simp
  from streams_of_a_run [OF run] obtain k where
    k: "int k = word_count ?opts"
    and e: "if quiet ?opts then stderr ?s = []
         else count_list (stderr ?s) (CHR ''\<newline>'') = k + 1"
    and o: "count_list (stdout ?s) (CHR ''\<newline>'') = (if join_char ?opts = ''\<newline>'' then k else 1)"
    by (auto split: if_splits)
  from k have "k = 2" by simp
  with e o have "count_list ?err (CHR ''\<newline>'') = 3" "count_list ''alpha beta\<newline>'' (CHR ''\<newline>'') = 1"
    by simp_all
  with run show ?thesis by blast
qed


end
